theory Spec2Isabelle
  imports Complex_Main "HOL-Library.AList"
begin

section \<open>Python values, exceptions and ordered dictionaries\<close>

text \<open>
  The utilities of \<^verbatim>\<open>komle/utils.py\<close> read a tree of XML-bound objects and build
  dictionaries of plain values. A Python \<^verbatim>\<open>dict\<close> keeps its keys in insertion order and
  an assignment to an existing key keeps the key's position: this is an association list
  with \<open>AList.update\<close> as assignment and \<open>map_of\<close> as lookup.
\<close>

datatype pyval =
    PyNone
  | PyStr string
  | PyInt int
  | PyFloat rat
  | PyBytes string
  | PyTimestamp string

datatype exn =
    KeyError string
  | IndexError
  | AttributeError
  | ValueError string
  | TypeError string
  | BindingError string

type_synonym 'v odict = "(string \<times> 'v) list"

text \<open>Running a loop body over a list, stopping at the first exception.\<close>

fun fold_exn :: "('a \<Rightarrow> 's \<Rightarrow> exn + 's) \<Rightarrow> 'a list \<Rightarrow> 's \<Rightarrow> exn + 's" where
  "fold_exn f [] s = Inr s"
| "fold_exn f (x # xs) s = (case f x s of Inl e \<Rightarrow> Inl e | Inr s' \<Rightarrow> fold_exn f xs s')"

fun map_exn :: "('a \<Rightarrow> exn + 'b) \<Rightarrow> 'a list \<Rightarrow> exn + 'b list" where
  "map_exn f [] = Inr []"
| "map_exn f (x # xs) =
     (case f x of Inl e \<Rightarrow> Inl e
      | Inr y \<Rightarrow> (case map_exn f xs of Inl e \<Rightarrow> Inl e | Inr ys \<Rightarrow> Inr (y # ys)))"

section \<open>The log decoder: \<^verbatim>\<open>logdata_dict\<close>\<close>

text \<open>
  \<^verbatim>\<open>LOG_PRIM_TYPES\<close> maps the names of the WITSML log data types to Python types, which
  are called as constructors on the text of a field.
\<close>

datatype pytype = Py_bytes | Py_timestamp | Py_float | Py_int | Py_str

definition LOG_PRIM_TYPES :: "pytype odict" where
  "LOG_PRIM_TYPES =
     [(''byte'', Py_bytes),
      (''date time'', Py_timestamp),
      (''double'', Py_float),
      (''float'', Py_float),
      (''int'', Py_int),
      (''long'', Py_int),
      (''short'', Py_int),
      (''string'', Py_str),
      (''string40'', Py_str),
      (''string16'', Py_str),
      (''unknown'', Py_str)]"

text \<open>
  Subscripting a dictionary raises \<^verbatim>\<open>KeyError\<close> on a missing key.
\<close>

definition getitem :: "'v odict \<Rightarrow> string \<Rightarrow> exn + 'v" where
  "getitem d k = (case map_of d k of None \<Rightarrow> Inl (KeyError k) | Some v \<Rightarrow> Inr v)"

text \<open>
  Calling a type of the table on a \<^verbatim>\<open>str\<close>. \<^verbatim>\<open>str(s)\<close> is \<open>s\<close> itself. The other
  constructors (\<^verbatim>\<open>bytes\<close>, \<^verbatim>\<open>float\<close>, \<^verbatim>\<open>int\<close> and the binding's \<^verbatim>\<open>timestamp\<close>) are
  not code of this repository: they are the parameter \<open>ext\<close>, which sees the type and
  the text of the field and nothing else, and returns a value or the exception raised.
\<close>

type_synonym caster = "pytype \<Rightarrow> string \<Rightarrow> exn + pyval"

definition value_cast :: "caster \<Rightarrow> pytype \<Rightarrow> string \<Rightarrow> exn + pyval" where
  "value_cast ext t s = (case t of Py_str \<Rightarrow> Inr (PyStr s) | _ \<Rightarrow> ext t s)"

text \<open>
  \<^verbatim>\<open>str.split(sep)\<close> with an explicit separator: the text is cut at every occurrence of
  \<open>sep\<close>, scanning from the left, and empty pieces are kept. An empty separator raises
  \<^verbatim>\<open>ValueError\<close>.
\<close>

function split_from :: "string \<Rightarrow> string \<Rightarrow> string \<Rightarrow> string list" where
  "split_from sep cur [] = [cur]"
| "split_from sep cur (c # cs) =
     (if sep \<noteq> [] \<and> take (length sep) (c # cs) = sep
      then cur # split_from sep [] (drop (length sep) (c # cs))
      else split_from sep (cur @ [c]) cs)"
  by pat_completeness auto
termination
  by (relation "measure (\<lambda>(sep, cur, s). length s)") auto

definition split :: "string \<Rightarrow> string \<Rightarrow> exn + string list" where
  "split s sep = (if sep = [] then Inl (ValueError ''empty separator'') else Inr (split_from sep [] s))"

text \<open>The parts of a log that \<^verbatim>\<open>logdata_dict\<close> reads.\<close>

record cs_logCurveInfo =
  mnemonic :: string
  typeLogData :: string

record cs_logData =
  mnemonicList :: string
  data :: "string list"

record obj_log =
  logCurveInfo :: "cs_logCurveInfo list"
  dataDelimiter :: "string option"
  logData :: "cs_logData list"

text \<open>
  \<^verbatim>\<open>mnem_cast_map = {c.mnemonic.value(): LOG_PRIM_TYPES[c.typeLogData] for c in log.logCurveInfo}\<close>
\<close>

definition mnem_cast_map :: "cs_logCurveInfo list \<Rightarrow> exn + pytype odict" where
  "mnem_cast_map cs =
     fold_exn (\<lambda>c m. case getitem LOG_PRIM_TYPES (typeLogData c) of
                        Inl e \<Rightarrow> Inl e
                      | Inr t \<Rightarrow> Inr (AList.update (mnemonic c) t m)) cs []"

text \<open>
  A column of \<^verbatim>\<open>data_list\<close>: the triple \<^verbatim>\<open>(mnem, mnem_cast_map[mnem], [])\<close>, whose third
  component grows.
\<close>

type_synonym column = "string \<times> pytype \<times> pyval list"

definition append_to :: "nat \<Rightarrow> pyval \<Rightarrow> column list \<Rightarrow> column list" where
  "append_to i v cols = cols[i := (fst (cols ! i), fst (snd (cols ! i)), snd (snd (cols ! i)) @ [v])]"

text \<open>
  The body of the inner loop, for the field \<open>point_str\<close> at position \<open>i\<close> of a row.
  \<^verbatim>\<open>data_list[i]\<close> raises \<^verbatim>\<open>IndexError\<close> when the row has more fields than there are
  columns; it is read only when something is appended.
\<close>

definition decode_point :: "caster \<Rightarrow> bool \<Rightarrow> nat \<times> string \<Rightarrow> column list \<Rightarrow> exn + column list" where
  "decode_point ext fill_missing ip cols =
     (let i = fst ip; point_str = snd ip in
      if point_str \<noteq> [] then
        (if i < length cols then
           (case value_cast ext (fst (snd (cols ! i))) point_str of
              Inl e \<Rightarrow> Inl e
            | Inr v \<Rightarrow> Inr (append_to i v cols))
         else Inl IndexError)
      else if fill_missing then
        (if i < length cols then Inr (append_to i PyNone cols) else Inl IndexError)
      else Inr cols)"

definition decode_row :: "caster \<Rightarrow> bool \<Rightarrow> string \<Rightarrow> string \<Rightarrow> column list \<Rightarrow> exn + column list" where
  "decode_row ext fill_missing delimiter data_str cols =
     (case split data_str delimiter of
        Inl e \<Rightarrow> Inl e
      | Inr points \<Rightarrow> fold_exn (decode_point ext fill_missing) (enumerate 0 points) cols)"

text \<open>\<^verbatim>\<open>{mnem: values for mnem, _, values in data_list}\<close>\<close>

definition frame_of :: "column list \<Rightarrow> pyval list odict" where
  "frame_of cols = fold (\<lambda>c d. AList.update (fst c) (snd (snd c)) d) cols []"

text \<open>\<^verbatim>\<open>delimiter = ',' if log.dataDelimiter is None else log.dataDelimiter\<close>\<close>

definition delimiter_of :: "obj_log \<Rightarrow> string" where
  "delimiter_of lg = (case dataDelimiter lg of None \<Rightarrow> '','' | Some d \<Rightarrow> d)"

definition logdata_dict :: "caster \<Rightarrow> obj_log \<Rightarrow> bool \<Rightarrow> exn + pyval list odict" where
  "logdata_dict ext lg fill_missing =
     (case mnem_cast_map (logCurveInfo lg) of
        Inl e \<Rightarrow> Inl e
      | Inr cast_map \<Rightarrow>
     (let delimiter = delimiter_of lg in
      case logData lg of
        [] \<Rightarrow> Inl IndexError
      | ld # _ \<Rightarrow>
     (case split (mnemonicList ld) delimiter of
        Inl e \<Rightarrow> Inl e
      | Inr mnems \<Rightarrow>
     (case map_exn (\<lambda>mnem. case getitem cast_map mnem of
                             Inl e \<Rightarrow> Inl e
                           | Inr t \<Rightarrow> Inr (mnem, t, [])) mnems of
        Inl e \<Rightarrow> Inl e
      | Inr data_list \<Rightarrow>
     (case fold_exn (decode_row ext fill_missing delimiter) (data ld) data_list of
        Inl e \<Rightarrow> Inl e
      | Inr data_list' \<Rightarrow> Inr (frame_of data_list'))))))"

subsection \<open>A sample of the external constructors\<close>

text \<open>
  For evaluating \<^verbatim>\<open>logdata_dict\<close> on concrete logs, \<open>sample_ext\<close> stands for the Python
  constructors on the texts used below, which are plain decimal literals (digits with
  one optional point) and the text \<^verbatim>\<open>abc\<close>: on a literal \<^verbatim>\<open>int\<close> and \<^verbatim>\<open>float\<close> return its
  value, and on \<^verbatim>\<open>abc\<close> they raise \<^verbatim>\<open>ValueError\<close> with the message of Python, which quotes
  the text. A \<open>PyFloat\<close> carries the decimal value of the literal; rounding to a binary
  double is not modelled. \<^verbatim>\<open>bytes\<close> of a \<^verbatim>\<open>str\<close> without an encoding raises \<^verbatim>\<open>TypeError\<close>.
  On other texts (signs, exponents, blanks, \<^verbatim>\<open>nan\<close>, and any text as a timestamp) the
  sample is not meant to follow Python, and no proof below applies it to one.
\<close>

definition digit :: "char \<Rightarrow> nat option" where
  "digit c = (let n = (of_char c :: nat) in if 48 \<le> n \<and> n \<le> 57 then Some (n - 48) else None)"

fun digits_from :: "nat \<Rightarrow> string \<Rightarrow> nat option" where
  "digits_from acc [] = Some acc"
| "digits_from acc (c # cs) =
     (case digit c of None \<Rightarrow> None | Some d \<Rightarrow> digits_from (10 * acc + d) cs)"

definition sample_int :: "string \<Rightarrow> exn + pyval" where
  "sample_int s =
     (case (if s = [] then None else digits_from 0 s) of
        None \<Rightarrow> Inl (ValueError (''invalid literal for int() with base 10: '' @ [CHR 0x27] @ s @ [CHR 0x27]))
      | Some n \<Rightarrow> Inr (PyInt (int n)))"

definition sample_float :: "string \<Rightarrow> exn + pyval" where
  "sample_float s =
     (let ip = takeWhile (\<lambda>c. c \<noteq> CHR ''.'') s;
          fp = drop 1 (dropWhile (\<lambda>c. c \<noteq> CHR ''.'') s)
      in case (if ip @ fp = [] then None else digits_from 0 ip, digits_from 0 fp) of
           (Some a, Some b) \<Rightarrow> Inr (PyFloat (of_nat a + of_nat b / 10 ^ length fp))
         | _ \<Rightarrow> Inl (ValueError (''could not convert string to float: '' @ [CHR 0x27] @ s @ [CHR 0x27])))"

definition sample_ext :: caster where
  "sample_ext t s =
     (case t of
        Py_bytes \<Rightarrow> Inl (TypeError ''string argument without an encoding'')
      | Py_timestamp \<Rightarrow> Inr (PyTimestamp s)
      | Py_float \<Rightarrow> sample_float s
      | Py_int \<Rightarrow> sample_int s
      | Py_str \<Rightarrow> Inr (PyStr s))"

subsection \<open>What a column holds\<close>

text \<open>
  The contribution of one field to its column, as the documentation of \<^verbatim>\<open>logdata_dict\<close>
  and the specification have it: the cast value of a non-empty field, \<^verbatim>\<open>None\<close> for an
  empty field when missing values are filled, nothing otherwise. \<open>row_entry\<close> is the
  contribution of a row to column \<open>j\<close> (nothing when the row has no field \<open>j\<close>),
  \<open>column_values\<close> the contributions of all rows in order. \<open>casts_ok\<close> says that a
  row has no more fields than there are columns and that each non-empty field is accepted
  by the type of its column. \<open>grows_by\<close> relates \<^verbatim>\<open>data_list\<close> before and after a part
  of the loop: same columns, with values appended.
\<close>

definition field_entry :: "caster \<Rightarrow> bool \<Rightarrow> pytype \<Rightarrow> string \<Rightarrow> pyval list" where
  "field_entry ext fill_missing t s =
     (if s \<noteq> [] then (case value_cast ext t s of Inl e \<Rightarrow> [] | Inr v \<Rightarrow> [v])
      else if fill_missing then [PyNone] else [])"

definition row_entry :: "caster \<Rightarrow> bool \<Rightarrow> pytype \<Rightarrow> nat \<Rightarrow> string list \<Rightarrow> pyval list" where
  "row_entry ext fill_missing t j points =
     (if j < length points then field_entry ext fill_missing t (points ! j) else [])"

definition casts_ok :: "caster \<Rightarrow> pytype list \<Rightarrow> string list \<Rightarrow> bool" where
  "casts_ok ext tys points \<longleftrightarrow>
     length points \<le> length tys \<and>
     (\<forall>j < length points. points ! j \<noteq> [] \<longrightarrow> (\<exists>v. value_cast ext (tys ! j) (points ! j) = Inr v))"

definition grows_by :: "column list \<Rightarrow> column list \<Rightarrow> (nat \<Rightarrow> pyval list) \<Rightarrow> bool" where
  "grows_by cols cols' added \<longleftrightarrow>
     length cols' = length cols \<and>
     (\<forall>j < length cols. fst (cols' ! j) = fst (cols ! j) \<and> fst (snd (cols' ! j)) = fst (snd (cols ! j)) \<and>
        snd (snd (cols' ! j)) = snd (snd (cols ! j)) @ added j)"

definition column_values :: "caster \<Rightarrow> bool \<Rightarrow> pytype \<Rightarrow> nat \<Rightarrow> string list list \<Rightarrow> pyval list" where
  "column_values ext fill_missing t j rows = concat (map (row_entry ext fill_missing t j) rows)"

subsection \<open>Sample logs\<close>

text \<open>
  A log with the two curves \<^verbatim>\<open>DEPT\<close> and \<^verbatim>\<open>GR\<close>, both of type \<^verbatim>\<open>double\<close>, the default
  delimiter and one \<^verbatim>\<open>logData\<close> section holding the given rows.
\<close>

definition example_log :: "string list \<Rightarrow> obj_log" where
  "example_log rows =
     \<lparr>logCurveInfo = [\<lparr>mnemonic = ''DEPT'', typeLogData = ''double''\<rparr>,
                      \<lparr>mnemonic = ''GR'', typeLogData = ''double''\<rparr>],
      dataDelimiter = None,
      logData = [\<lparr>mnemonicList = ''DEPT,GR'', data = rows\<rparr>]\<rparr>"

text \<open>The same log with another name for its second curve.\<close>

definition example_log_named :: "string \<Rightarrow> string list \<Rightarrow> obj_log" where
  "example_log_named m rows =
     \<lparr>logCurveInfo = [\<lparr>mnemonic = ''DEPT'', typeLogData = ''double''\<rparr>,
                      \<lparr>mnemonic = m, typeLogData = ''double''\<rparr>],
      dataDelimiter = None,
      logData = [\<lparr>mnemonicList = ''DEPT,'' @ m, data = rows\<rparr>]\<rparr>"

section \<open>Bound objects\<close>

text \<open>
  The objects come from the PyXB binding layer, which is not code of this repository. The
  model keeps what \<^verbatim>\<open>obj_dict\<close>, \<^verbatim>\<open>plural_dict\<close> and \<^verbatim>\<open>to_plain\<close> ask of an object:
  \<^item> \<open>PyValue v\<close> is a Python value that is no binding instance (\<^verbatim>\<open>None\<close> among them):
    it has no \<^verbatim>\<open>_AttributeMap\<close>;
  \<^item> \<open>SimpleType v\<close> is an instance of a simple type definition: its \<^verbatim>\<open>_AttributeMap\<close>
    is empty and it is not a complex type definition;
  \<^item> \<open>PluralBinding items\<close> is a \<^verbatim>\<open>_PluralBinding\<close>;
  \<^item> \<open>ComplexType am tag v oc em lg\<close> is an instance of a complex type definition:
    \<open>am\<close> lists its attribute uses as pairs of \<^verbatim>\<open>id()\<close> and \<^verbatim>\<open>value(obj)\<close>, \<open>tag\<close> is
    \<^verbatim>\<open>_ContentTypeTag\<close>, \<open>v\<close> is what \<^verbatim>\<open>obj.value()\<close> returns or raises, \<open>oc\<close> is
    \<^verbatim>\<open>orderedContent()\<close>, \<open>em\<close> gives the value of each element
    (one name stands for the \<^verbatim>\<open>id()\<close> and the \<^verbatim>\<open>name()\<close> of a declaration, so
    \<^verbatim>\<open>getattr(obj, n)\<close> and \<^verbatim>\<open>obj._ElementMap[n].value(obj)\<close> are both a lookup in
    \<open>em\<close>), and \<open>lg\<close> is \<open>Some\<close> of the log's fields when the class of the object is
    \<^verbatim>\<open>obj_log\<close>.
  A Python \<^verbatim>\<open>list\<close> of objects, which \<^verbatim>\<open>to_plain\<close> also accepts, is not modelled.
\<close>

datatype content_type = CT_EMPTY | CT_SIMPLE | CT_MIXED | CT_ELEMENT_ONLY

text \<open>
  An item of \<^verbatim>\<open>orderedContent()\<close>. \<open>ElementContent (Some n)\<close> is an element whose
  \<^verbatim>\<open>elementDeclaration\<close> is the declaration \<open>n\<close>, \<open>ElementContent None\<close> an element
  without declaration (matched by a wildcard). \<open>NonElementContent\<close> is a piece of text in
  mixed content: it has no \<^verbatim>\<open>elementDeclaration\<close>, and reading it raises
  \<^verbatim>\<open>AttributeError\<close>.
\<close>

datatype content = ElementContent "string option" | NonElementContent

datatype obj =
    PyValue pyval
  | SimpleType pyval
  | PluralBinding "obj list"
  | ComplexType "(string \<times> pyval) list" content_type "exn + pyval" "content list"
      "(string \<times> obj) list" "obj_log option"

text \<open>
  The measure for the work list of \<^verbatim>\<open>obj_dict\<close> and for the recursion of
  \<^verbatim>\<open>to_plain\<close>: an element that occurs several times in the ordered content is pushed
  as often, so the size of the tree is not enough.
\<close>

fun work :: "obj \<Rightarrow> nat" where
  "work (PyValue v) = 1"
| "work (SimpleType v) = 1"
| "work (PluralBinding items) = Suc (sum_list (map work items))"
| "work (ComplexType am tag v oc em lg) = Suc (Suc (length oc) * sum_list (map (\<lambda>p. work (snd p)) em))"

section \<open>The tree flattener: \<^verbatim>\<open>obj_dict\<close>\<close>

text \<open>
  \<^verbatim>\<open>delimiter.join(filter(None, [base_name, name]))\<close>: empty parts are dropped before
  joining. \<open>str_int\<close> is \<^verbatim>\<open>str\<close> on an \<^verbatim>\<open>int\<close>, for the index in
  \<^verbatim>\<open>f'{base_name}[{start_idx+i}]'\<close>.
\<close>

definition join_path :: "string \<Rightarrow> string \<Rightarrow> string \<Rightarrow> string" where
  "join_path delimiter base_name name =
     (if base_name = [] then name else if name = [] then base_name else base_name @ delimiter @ name)"

function str_nat :: "nat \<Rightarrow> string" where
  "str_nat n = (if n < 10 then [''0123456789'' ! n] else str_nat (n div 10) @ [''0123456789'' ! (n mod 10)])"
  by pat_completeness auto
termination
  by (relation "measure id") auto

definition str_int :: "int \<Rightarrow> string" where
  "str_int i = (if i < 0 then CHR ''-'' # str_nat (nat (- i)) else str_nat (nat i))"

fun AttributeMap :: "obj \<Rightarrow> exn + (string \<times> pyval) list" where
  "AttributeMap (PyValue v) = Inl AttributeError"
| "AttributeMap (SimpleType v) = Inr []"
| "AttributeMap (PluralBinding items) = Inl AttributeError"
| "AttributeMap (ComplexType am tag v oc em lg) = Inr am"

text \<open>
  \<^verbatim>\<open>[cont.elementDeclaration.id() for cont in obj.orderedContent() if cont.elementDeclaration is not None]\<close>
\<close>

fun element_ids :: "content list \<Rightarrow> exn + string list" where
  "element_ids [] = Inr []"
| "element_ids (NonElementContent # conts) = Inl AttributeError"
| "element_ids (ElementContent None # conts) = element_ids conts"
| "element_ids (ElementContent (Some n) # conts) =
     (case element_ids conts of Inl e \<Rightarrow> Inl e | Inr names \<Rightarrow> Inr (n # names))"

definition emit_attrs :: "string \<Rightarrow> string \<Rightarrow> string \<Rightarrow> (string \<times> pyval) list \<Rightarrow> pyval odict \<Rightarrow> pyval odict" where
  "emit_attrs prefix_attr delimiter base_name am flatten_witsml =
     fold (\<lambda>attr_use d. AList.update (join_path delimiter base_name (prefix_attr @ fst attr_use)) (snd attr_use) d)
       am flatten_witsml"

definition indexed_items :: "int \<Rightarrow> string \<Rightarrow> obj list \<Rightarrow> (string \<times> obj) list" where
  "indexed_items start_idx base_name items =
     map (\<lambda>p. (base_name @ ''['' @ str_int (start_idx + int (fst p)) @ '']'', snd p)) (enumerate 0 items)"

text \<open>
  The loop over \<^verbatim>\<open>obj.orderedContent()\<close> in \<^verbatim>\<open>obj_dict\<close>: the pairs of path and object
  that are appended to \<^verbatim>\<open>obj_list\<close>, in order. \<^verbatim>\<open>obj._ElementMap[...]\<close> raises
  \<^verbatim>\<open>KeyError\<close> for an element that the object does not hold.
\<close>

fun child_objs :: "string \<Rightarrow> string \<Rightarrow> content list \<Rightarrow> (string \<times> obj) list \<Rightarrow> exn + (string \<times> obj) list" where
  "child_objs delimiter base_name [] em = Inr []"
| "child_objs delimiter base_name (NonElementContent # conts) em = Inl AttributeError"
| "child_objs delimiter base_name (ElementContent None # conts) em = child_objs delimiter base_name conts em"
| "child_objs delimiter base_name (ElementContent (Some n) # conts) em =
     (case map_of em n of
        None \<Rightarrow> Inl (KeyError n)
      | Some next_obj \<Rightarrow>
          (case child_objs delimiter base_name conts em of
             Inl e \<Rightarrow> Inl e
           | Inr kids \<Rightarrow> Inr ((join_path delimiter base_name n, next_obj) # kids)))"

lemma work_indexed_items:
  "sum_list (map (\<lambda>p. work (snd p)) (indexed_items start_idx base_name items)) = sum_list (map work items)"
proof -
  have "map (\<lambda>p. work (snd p)) (indexed_items start_idx base_name items) = map (work \<circ> snd) (enumerate 0 items)"
    by (simp add: indexed_items_def comp_def)
  also have "\<dots> = map work (map snd (enumerate 0 items))" by (simp only: map_map)
  also have "\<dots> = map work items" by (simp only: map_snd_enumerate)
  finally show ?thesis by simp
qed

lemma work_map_of: "map_of em n = Some x \<Longrightarrow> work x \<le> sum_list (map (\<lambda>p. work (snd p)) em)"
  by (induction em) (auto split: if_splits)

lemma work_child_objs:
  "child_objs delimiter base_name oc em = Inr kids \<Longrightarrow>
   sum_list (map (\<lambda>p. work (snd p)) kids) \<le> length oc * sum_list (map (\<lambda>p. work (snd p)) em)"
proof (induction delimiter base_name oc em arbitrary: kids rule: child_objs.induct)
  case (1 delimiter base_name em)
  then show ?case by simp
next
  case (2 delimiter base_name conts em)
  then show ?case by simp
next
  case (3 delimiter base_name conts em)
  from "3.IH"[OF "3.prems"[simplified]] show ?case by simp
next
  case (4 delimiter base_name n conts em)
  from "4.prems" obtain x ks where x: "map_of em n = Some x"
    and ks: "child_objs delimiter base_name conts em = Inr ks" and kids: "kids = (join_path delimiter base_name n, x) # ks"
    by (auto split: option.splits sum.splits)
  from "4.IH"[OF x ks] work_map_of[OF x] show ?case by (simp add: kids)
qed

text \<open>
  The loop \<^verbatim>\<open>while obj_list: base_name, obj = obj_list.pop() ...\<close>. The Python list is
  used as a stack whose top is its end; here the top is the head, so appending the items
  \<open>xs\<close> in order is \<open>rev xs @ obj_list\<close>. After a plural binding is expanded
  \<^verbatim>\<open>obj\<close> is set to \<^verbatim>\<open>None\<close> and nothing is emitted for it. Otherwise the attributes
  are emitted when \<open>include_attr\<close> is set (\<^verbatim>\<open>obj._AttributeMap\<close> raises on an object
  without it), then either the children of a structured node are pushed, or the leaf
  value is stored unless the object is \<^verbatim>\<open>None\<close>.
\<close>

function obj_dict_loop :: "bool \<Rightarrow> string \<Rightarrow> string \<Rightarrow> int \<Rightarrow> (string \<times> obj) list \<Rightarrow> pyval odict \<Rightarrow> exn + pyval odict" where
  "obj_dict_loop include_attr prefix_attr delimiter start_idx [] flatten_witsml = Inr flatten_witsml"
| "obj_dict_loop include_attr prefix_attr delimiter start_idx ((base_name, PluralBinding items) # obj_list) flatten_witsml =
     obj_dict_loop include_attr prefix_attr delimiter start_idx
       (rev (indexed_items start_idx base_name items) @ obj_list) flatten_witsml"
| "obj_dict_loop include_attr prefix_attr delimiter start_idx ((base_name, PyValue v) # obj_list) flatten_witsml =
     (if include_attr then Inl AttributeError
      else if v \<noteq> PyNone then
        obj_dict_loop include_attr prefix_attr delimiter start_idx obj_list (AList.update base_name v flatten_witsml)
      else obj_dict_loop include_attr prefix_attr delimiter start_idx obj_list flatten_witsml)"
| "obj_dict_loop include_attr prefix_attr delimiter start_idx ((base_name, SimpleType v) # obj_list) flatten_witsml =
     obj_dict_loop include_attr prefix_attr delimiter start_idx obj_list (AList.update base_name v flatten_witsml)"
| "obj_dict_loop include_attr prefix_attr delimiter start_idx ((base_name, ComplexType am tag v oc em lg) # obj_list) flatten_witsml =
     (let flatten_witsml1 =
            (if include_attr then emit_attrs prefix_attr delimiter base_name am flatten_witsml else flatten_witsml)
      in if tag \<noteq> CT_EMPTY \<and> tag \<noteq> CT_SIMPLE then
           (case child_objs delimiter base_name oc em of
              Inl e \<Rightarrow> Inl e
            | Inr kids \<Rightarrow>
                obj_dict_loop include_attr prefix_attr delimiter start_idx (rev kids @ obj_list) flatten_witsml1)
         else
           (case v of
              Inl e \<Rightarrow> Inl e
            | Inr x \<Rightarrow>
                obj_dict_loop include_attr prefix_attr delimiter start_idx obj_list
                  (AList.update base_name x flatten_witsml1)))"
  by pat_completeness auto
termination
proof (relation "measure (\<lambda>(ia, pa, dl, si, obj_list, fw). sum_list (map (\<lambda>p. work (snd p)) obj_list))")
  show "wf (measure (\<lambda>(ia, pa, dl, si, obj_list, fw). sum_list (map (\<lambda>p. work (snd p)) obj_list)))" by simp
next
  fix ia :: bool and pa dl :: string and si :: int and base_name :: string and items obj_list and fw :: "pyval odict"
  show "((ia, pa, dl, si, rev (indexed_items si base_name items) @ obj_list, fw),
         (ia, pa, dl, si, (base_name, PluralBinding items) # obj_list, fw))
        \<in> measure (\<lambda>(ia, pa, dl, si, obj_list, fw). sum_list (map (\<lambda>p. work (snd p)) obj_list))"
    by (simp add: rev_map[symmetric] work_indexed_items)
next
  fix ia :: bool and pa dl :: string and si :: int and base_name :: string and am tag v oc em lg obj_list
    and fw x :: "pyval odict" and kids
  assume "child_objs dl base_name oc em = Inr kids"
  then have "sum_list (map (\<lambda>p. work (snd p)) kids) \<le> length oc * sum_list (map (\<lambda>p. work (snd p)) em)"
    by (rule work_child_objs)
  then show "((ia, pa, dl, si, rev kids @ obj_list, x), (ia, pa, dl, si, (base_name, ComplexType am tag v oc em lg) # obj_list, fw))
        \<in> measure (\<lambda>(ia, pa, dl, si, obj_list, fw). sum_list (map (\<lambda>p. work (snd p)) obj_list))"
    by (simp add: rev_map[symmetric])
qed auto

definition obj_dict :: "obj \<Rightarrow> bool \<Rightarrow> string \<Rightarrow> string \<Rightarrow> int \<Rightarrow> exn + pyval odict" where
  "obj_dict obj include_attr prefix_attr delimiter start_idx =
     obj_dict_loop include_attr prefix_attr delimiter start_idx [([], obj)] []"




section \<open>The frame builder: \<^verbatim>\<open>plural_dict\<close>\<close>

text \<open>
  \<^verbatim>\<open>existing_keys.extend([k for k in flatten_witsml if k not in existing_keys])\<close>, once per
  member.
\<close>

definition extend_keys :: "pyval odict \<Rightarrow> string list \<Rightarrow> string list" where
  "extend_keys flatten_witsml existing_keys =
     existing_keys @ filter (\<lambda>k. k \<notin> set existing_keys) (map fst flatten_witsml)"

text \<open>
  \<^verbatim>\<open>frame_dict[key][idx] = fw[key]\<close> for every key of a member that the frame has. The index
  is in range, the lists having the length of the collection.
\<close>

definition fill_member :: "nat \<times> pyval odict \<Rightarrow> pyval list odict \<Rightarrow> pyval list odict" where
  "fill_member ifw frame_dict =
     fold (\<lambda>key d. case map_of d key of
                      None \<Rightarrow> d
                    | Some col \<Rightarrow>
                        (case map_of (snd ifw) key of
                           None \<Rightarrow> d
                         | Some v \<Rightarrow> AList.update key (col[fst ifw := v]) d))
       (map fst (snd ifw)) frame_dict"

text \<open>\<^verbatim>\<open>frame_dict[key].append(fw[key])\<close> for every key of a member.\<close>

definition append_member :: "pyval odict \<Rightarrow> pyval list odict \<Rightarrow> exn + pyval list odict" where
  "append_member fw frame_dict =
     fold_exn (\<lambda>key d. case getitem d key of
                          Inl e \<Rightarrow> Inl e
                        | Inr col \<Rightarrow>
                            (case getitem fw key of
                               Inl e \<Rightarrow> Inl e
                             | Inr v \<Rightarrow> Inr (AList.update key (col @ [v]) d)))
       (map fst fw) frame_dict"

text \<open>
  The first loop of \<^verbatim>\<open>plural_dict\<close> flattens the members in order; an exception of
  \<^verbatim>\<open>obj_dict\<close> ends the call. The keys are collected from the flattened members, which
  is done here once they are all there.
\<close>

definition plural_dict :: "obj list \<Rightarrow> bool \<Rightarrow> bool \<Rightarrow> string \<Rightarrow> string \<Rightarrow> int \<Rightarrow> exn + pyval list odict" where
  "plural_dict plural_obj include_attr fill_missing prefix_attr delimiter start_idx =
     (case map_exn (\<lambda>obj. obj_dict obj include_attr prefix_attr delimiter start_idx) plural_obj of
        Inl e \<Rightarrow> Inl e
      | Inr frame_list \<Rightarrow>
     (let existing_keys = fold extend_keys frame_list [] in
      if fill_missing then
        Inr (fold fill_member (enumerate 0 frame_list)
               (fold (\<lambda>key d. AList.update key (replicate (length plural_obj) PyNone) d) existing_keys []))
      else
        fold_exn append_member frame_list
          (fold (\<lambda>key d. AList.update key [] d) existing_keys [])))"

section \<open>The converter to plain data: \<^verbatim>\<open>to_plain\<close>\<close>

datatype plain = Leaf pyval | PlainList "plain list" | PlainDict "(string \<times> plain) list"

text \<open>\<^verbatim>\<open>dict.fromkeys(names)\<close>: the names in the order of their first occurrence.\<close>

definition fromkeys :: "string list \<Rightarrow> string list" where
  "fromkeys names = fold (\<lambda>n keys. if n \<in> set keys then keys else keys @ [n]) names []"

text \<open>A frame of \<^verbatim>\<open>logdata_dict\<close> as plain data.\<close>

definition plain_of_frame :: "pyval list odict \<Rightarrow> plain" where
  "plain_of_frame frame = PlainDict (map (\<lambda>kv. (fst kv, PlainList (map Leaf (snd kv)))) frame)"

text \<open>
  \<^verbatim>\<open>all_keys.update(as_dict)\<close> in \<^verbatim>\<open>plural_to_dict_of_lists\<close>, where only the keys matter.
  The keys of a mapping are added in their order. For a member that is no mapping,
  \<^verbatim>\<open>dict.update\<close> iterates over it: \<^verbatim>\<open>None\<close>, a number and a timestamp are not iterable
  (\<^verbatim>\<open>TypeError\<close>), a character of a text is not a pair (\<^verbatim>\<open>ValueError\<close>), a byte is not a
  sequence (\<^verbatim>\<open>TypeError\<close>), and an empty text or byte string adds nothing. A list is not
  the conversion of any member when \<^verbatim>\<open>transpose\<close> is set, the only case in which the
  function is called; the model has \<^verbatim>\<open>TypeError\<close> for it.
\<close>

fun update_keys :: "plain \<Rightarrow> string list \<Rightarrow> exn + string list" where
  "update_keys (PlainDict d) all_keys =
     Inr (fold (\<lambda>k ks. if k \<in> set ks then ks else ks @ [k]) (map fst d) all_keys)"
| "update_keys (Leaf PyNone) all_keys = Inl (TypeError ''object is not iterable'')"
| "update_keys (Leaf (PyInt i)) all_keys = Inl (TypeError ''object is not iterable'')"
| "update_keys (Leaf (PyFloat x)) all_keys = Inl (TypeError ''object is not iterable'')"
| "update_keys (Leaf (PyTimestamp t)) all_keys = Inl (TypeError ''object is not iterable'')"
| "update_keys (Leaf (PyStr s)) all_keys =
     (if s = [] then Inr all_keys
      else Inl (ValueError ''dictionary update sequence element #0 has length 1; 2 is required''))"
| "update_keys (Leaf (PyBytes b)) all_keys =
     (if b = [] then Inr all_keys
      else Inl (TypeError ''cannot convert dictionary update sequence element #0 to a sequence''))"
| "update_keys (PlainList xs) all_keys = Inl (TypeError ''list of members'')"

text \<open>\<^verbatim>\<open>frame.get(key, None)\<close>: only a mapping has \<^verbatim>\<open>get\<close>.\<close>

fun get_or_none :: "plain \<Rightarrow> string \<Rightarrow> exn + plain" where
  "get_or_none (PlainDict d) key = Inr (case map_of d key of None \<Rightarrow> Leaf PyNone | Some p \<Rightarrow> p)"
| "get_or_none (Leaf v) key = Inl AttributeError"
| "get_or_none (PlainList xs) key = Inl AttributeError"

text \<open>\<^verbatim>\<open>{key: [frame.get(key, None) for frame in frame_list] for key in all_keys}\<close>\<close>

definition dict_of_lists :: "plain list \<Rightarrow> string list \<Rightarrow> exn + plain" where
  "dict_of_lists frame_list all_keys =
     (case map_exn (\<lambda>key. case map_exn (\<lambda>frame. get_or_none frame key) frame_list of
                            Inl e \<Rightarrow> Inl e
                          | Inr col \<Rightarrow> Inr (key, PlainList col)) all_keys of
        Inl e \<Rightarrow> Inl e
      | Inr d \<Rightarrow> Inr (PlainDict d))"

text \<open>
  The column pivot on mappings, as the specification describes it: the union of the keys
  in the order in which they are first seen, and for each key one entry per mapping,
  \<^verbatim>\<open>None\<close> where the mapping lacks the key.
\<close>

definition all_keys_of :: "plain odict list \<Rightarrow> string list" where
  "all_keys_of frame_list =
     fold (\<lambda>as_dict keys. fold (\<lambda>k ks. if k \<in> set ks then ks else ks @ [k]) (map fst as_dict) keys) frame_list []"

definition pivot :: "plain odict list \<Rightarrow> plain list odict" where
  "pivot frame_list =
     map (\<lambda>key. (key, map (\<lambda>frame. case map_of frame key of None \<Rightarrow> Leaf PyNone | Some p \<Rightarrow> p) frame_list))
       (all_keys_of frame_list)"

text \<open>
  The writes for one child of a structured node: its attributes, when they are included
  and the child has an \<^verbatim>\<open>_AttributeMap\<close>, under
  \<^verbatim>\<open>next_path+delimiter+prefix_attr+attr_use.id()\<close>, then the converted child itself.
\<close>

definition child_entries :: "bool \<Rightarrow> string \<Rightarrow> string \<Rightarrow> string \<Rightarrow> obj \<Rightarrow> plain \<Rightarrow> (string \<times> plain) list" where
  "child_entries include_attr prefix_attr delimiter next_path next_obj p =
     (case (if include_attr then AttributeMap next_obj else Inl AttributeError) of
        Inl e \<Rightarrow> []
      | Inr am \<Rightarrow> map (\<lambda>attr_use. (next_path @ delimiter @ prefix_attr @ fst attr_use, Leaf (snd attr_use))) am)
     @ [(next_path, p)]"

lemma map_exn_cong [fundef_cong]:
  "xs = ys \<Longrightarrow> (\<And>x. x \<in> set ys \<Longrightarrow> f x = g x) \<Longrightarrow> map_exn f xs = map_exn g ys"
  by (induction ys arbitrary: xs) (auto split: sum.splits)

lemma fold_exn_cong [fundef_cong]:
  "xs = ys \<Longrightarrow> s = t \<Longrightarrow> (\<And>x s'. x \<in> set ys \<Longrightarrow> f x s' = g x s') \<Longrightarrow> fold_exn f xs s = fold_exn g ys t"
  by (induction ys arbitrary: xs s t) (auto split: sum.splits)

lemma work_member: "x \<in> set items \<Longrightarrow> work x \<le> sum_list (map work items)"
  by (induction items) auto

lemma work_pos: "0 < work x"
  by (cases x) auto

text \<open>
  \<^verbatim>\<open>any_to_plain\<close> with \<^verbatim>\<open>singular_to_plain\<close>, \<^verbatim>\<open>plural_to_list_of_plains\<close> and
  \<^verbatim>\<open>plural_to_dict_of_lists\<close> inlined. The loop of \<^verbatim>\<open>plural_to_dict_of_lists\<close> converts a
  member, appends it to \<^verbatim>\<open>frame_list\<close> and updates \<^verbatim>\<open>all_keys\<close> before it turns to the
  next member. For a structured node the names are collected first, the children are
  then converted in the order of \<^verbatim>\<open>dict.fromkeys(names)\<close>, \<^verbatim>\<open>getattr\<close> raising
  \<^verbatim>\<open>AttributeError\<close> on a missing one, and their writes are applied to \<^verbatim>\<open>as_dict\<close>, which
  starts with the attributes of the node itself.
\<close>

function any_to_plain :: "caster \<Rightarrow> bool \<Rightarrow> string \<Rightarrow> string \<Rightarrow> bool \<Rightarrow> obj \<Rightarrow> exn + plain" where
  "any_to_plain ext include_attr prefix_attr delimiter transposed (PluralBinding items) =
     (if transposed then
        (case fold_exn (\<lambda>obj state.
                 case any_to_plain ext include_attr prefix_attr delimiter transposed obj of
                   Inl e \<Rightarrow> Inl e
                 | Inr as_dict \<Rightarrow>
                     (case update_keys as_dict (snd state) of
                        Inl e \<Rightarrow> Inl e
                      | Inr all_keys \<Rightarrow> Inr (fst state @ [as_dict], all_keys)))
               items ([], []) of
           Inl e \<Rightarrow> Inl e
         | Inr state \<Rightarrow> dict_of_lists (fst state) (snd state))
      else
        (case map_exn (any_to_plain ext include_attr prefix_attr delimiter transposed) items of
           Inl e \<Rightarrow> Inl e
         | Inr plains \<Rightarrow> Inr (PlainList plains)))"
| "any_to_plain ext include_attr prefix_attr delimiter transposed (ComplexType am tag v oc em (Some lg)) =
     (case logdata_dict ext lg True of Inl e \<Rightarrow> Inl e | Inr frame \<Rightarrow> Inr (plain_of_frame frame))"
| "any_to_plain ext include_attr prefix_attr delimiter transposed (PyValue x) = Inr (Leaf x)"
| "any_to_plain ext include_attr prefix_attr delimiter transposed (SimpleType x) = Inr (Leaf x)"
| "any_to_plain ext include_attr prefix_attr delimiter transposed (ComplexType am tag v oc em None) =
     (if tag = CT_EMPTY \<or> tag = CT_SIMPLE then
        (case v of Inl e \<Rightarrow> Inl e | Inr x \<Rightarrow> Inr (Leaf x))
      else
        (case element_ids oc of
           Inl e \<Rightarrow> Inl e
         | Inr names \<Rightarrow>
        (case map_exn (\<lambda>next_path.
                 case map_of em next_path of
                   None \<Rightarrow> Inl AttributeError
                 | Some next_obj \<Rightarrow>
                     (case any_to_plain ext include_attr prefix_attr delimiter transposed next_obj of
                        Inl e \<Rightarrow> Inl e
                      | Inr p \<Rightarrow> Inr (child_entries include_attr prefix_attr delimiter next_path next_obj p)))
               (fromkeys names) of
           Inl e \<Rightarrow> Inl e
         | Inr writes \<Rightarrow>
             Inr (PlainDict
                   (fold (\<lambda>kv d. AList.update (fst kv) (snd kv) d) (concat writes)
                      (if include_attr
                       then fold (\<lambda>attr_use d. AList.update (prefix_attr @ fst attr_use) (Leaf (snd attr_use)) d) am []
                       else []))))))"
  by pat_completeness auto
termination
proof (relation "measure (\<lambda>(ext, ia, pa, dl, tr, obj). work obj)")
  show "wf (measure (\<lambda>(ext, ia, pa, dl, tr, obj). work obj))" by simp
next
  fix ext :: caster and ia :: bool and pa dl :: string and tr :: bool and items :: "obj list" and x
  assume "x \<in> set items"
  then have "work x \<le> sum_list (map work items)" by (rule work_member)
  then show "((ext, ia, pa, dl, tr, x), (ext, ia, pa, dl, tr, PluralBinding items))
      \<in> measure (\<lambda>(ext, ia, pa, dl, tr, obj). work obj)"
    by simp
next
  fix ext :: caster and ia :: bool and pa dl :: string and tr :: bool and items :: "obj list" and x
  assume "x \<in> set items"
  then have "work x \<le> sum_list (map work items)" by (rule work_member)
  then show "((ext, ia, pa, dl, tr, x), (ext, ia, pa, dl, tr, PluralBinding items))
      \<in> measure (\<lambda>(ext, ia, pa, dl, tr, obj). work obj)"
    by simp
next
  fix ext :: caster and ia :: bool and pa dl :: string and tr :: bool and am tag v oc
    and em :: "(string \<times> obj) list" and n :: string and next_obj :: obj
  assume "map_of em n = Some next_obj"
  then have "work next_obj \<le> sum_list (map (\<lambda>p. work (snd p)) em)" by (rule work_map_of)
  then show "((ext, ia, pa, dl, tr, next_obj), (ext, ia, pa, dl, tr, ComplexType am tag v oc em None))
      \<in> measure (\<lambda>(ext, ia, pa, dl, tr, obj). work obj)"
    by simp
qed

definition to_plain :: "caster \<Rightarrow> obj \<Rightarrow> bool \<Rightarrow> string \<Rightarrow> string \<Rightarrow> bool \<Rightarrow> exn + plain" where
  "to_plain ext obj include_attr prefix_attr delimiter transposed =
     any_to_plain ext include_attr prefix_attr delimiter transposed obj"

subsection \<open>Logs inside other objects\<close>

text \<open>
  The test \<^verbatim>\<open>obj.__class__.__name__ == 'obj_log'\<close>, with the fields of the log. It is used
  to say of the members of a collection that they are logs.
\<close>

fun as_obj_log :: "obj \<Rightarrow> obj_log option" where
  "as_obj_log (ComplexType am tag v oc em lg) = lg"
| "as_obj_log (PyValue x) = None"
| "as_obj_log (SimpleType x) = None"
| "as_obj_log (PluralBinding items) = None"

text \<open>
  What transposing makes of the frames of a collection of logs: one key for each
  mnemonic of any log, in the order in which they are first seen, with one entry per log,
  the column of the log for the mnemonic or \<^verbatim>\<open>None\<close> when the log has no such mnemonic.
\<close>

definition transposed_frames :: "pyval list odict list \<Rightarrow> plain" where
  "transposed_frames frames =
     PlainDict
       (map (\<lambda>key. (key, PlainList (map (\<lambda>frame. case map_of frame key of
                                                    None \<Rightarrow> Leaf PyNone
                                                  | Some column \<Rightarrow> PlainList (map Leaf column)) frames)))
          (fold (\<lambda>frame keys. fold (\<lambda>k ks. if k \<in> set ks then ks else ks @ [k]) (map fst frame) keys) frames []))"

text \<open>
  The keys \<^verbatim>\<open>next_path+delimiter+prefix_attr+attr_use.id()\<close> under which
  \<^verbatim>\<open>singular_to_plain\<close> writes the attributes of the children other than \<open>n\<close>. When one
  of them is the name \<open>n\<close> itself, that write and the write of the child \<open>n\<close> go to the
  same key.
\<close>

definition sibling_attr_keys :: "bool \<Rightarrow> string \<Rightarrow> string \<Rightarrow> string list \<Rightarrow> (string \<times> obj) list \<Rightarrow> string \<Rightarrow> string list" where
  "sibling_attr_keys include_attr prefix_attr delimiter names em n =
     (if include_attr then
        concat (map (\<lambda>m. case map_of em m of
                           None \<Rightarrow> []
                         | Some next_obj \<Rightarrow>
                             (case AttributeMap next_obj of
                                Inl e \<Rightarrow> []
                              | Inr am \<Rightarrow> map (\<lambda>attr_use. m @ delimiter @ prefix_attr @ fst attr_use) am))
                  (filter (\<lambda>m. m \<noteq> n) names))
      else [])"

section \<open>Sample objects\<close>


text \<open>A structured member whose children are the given names, each a simple value.\<close>

definition example_station :: "string list \<Rightarrow> obj" where
  "example_station names =
     ComplexType [] CT_ELEMENT_ONLY (Inl (BindingError ''NotSimpleContentError''))
       (map (\<lambda>n. ElementContent (Some n)) names)
       (map (\<lambda>n. (n, SimpleType (PyStr (''value of '' @ n)))) names) None"


text \<open>
  The shape in which the library delivers logs: an object \<^verbatim>\<open>logs\<close> whose element \<^verbatim>\<open>log\<close>
  is a plural binding of objects of class \<^verbatim>\<open>obj_log\<close>.
\<close>

definition example_log_node :: "string \<Rightarrow> obj_log \<Rightarrow> obj" where
  "example_log_node uid lg =
     ComplexType [(''uid'', PyStr uid)] CT_ELEMENT_ONLY (Inl (BindingError ''NotSimpleContentError''))
       [ElementContent (Some ''name'')] [(''name'', SimpleType (PyStr (''Log '' @ uid)))] (Some lg)"

definition example_logs :: obj where
  "example_logs =
     ComplexType [(''version'', PyStr ''1.4.1.1'')] CT_ELEMENT_ONLY (Inl (BindingError ''NotSimpleContentError''))
       [ElementContent (Some ''log''), ElementContent (Some ''log'')]
       [(''log'', PluralBinding
           [example_log_node ''L1'' (example_log [''100.0,50.2'', ''100.1,'']),
            example_log_node ''L2'' (example_log_named ''ROP'' [''100.0,''])])]
       None"


section \<open>Properties of the log decoder\<close>

lemma fold_exn_append:
  "fold_exn f (xs @ ys) s = (case fold_exn f xs s of Inl e \<Rightarrow> Inl e | Inr s' \<Rightarrow> fold_exn f ys s')"
  by (induction xs arbitrary: s) (auto split: sum.splits)

lemma length_append_to [simp]: "length (append_to i v cols) = length cols"
  by (simp add: append_to_def)

lemma nth_append_to:
  "j < length cols \<Longrightarrow> append_to i v cols ! j =
     (if j = i then (fst (cols ! i), fst (snd (cols ! i)), snd (snd (cols ! i)) @ [v]) else cols ! j)"
  by (simp add: append_to_def nth_list_update)

lemma decode_point_ok:
  assumes "i < length cols"
    and "s \<noteq> [] \<longrightarrow> (\<exists>v. value_cast ext (fst (snd (cols ! i))) s = Inr v)"
  shows "\<exists>cols'. decode_point ext fm (i, s) cols = Inr cols' \<and> length cols' = length cols \<and>
     (\<forall>j < length cols. fst (cols' ! j) = fst (cols ! j) \<and> fst (snd (cols' ! j)) = fst (snd (cols ! j)) \<and>
        snd (snd (cols' ! j)) = snd (snd (cols ! j)) @ (if j = i then field_entry ext fm (fst (snd (cols ! j))) s else []))"
  using assms by (auto simp: decode_point_def field_entry_def nth_append_to)

lemma decode_points_ok:
  assumes "k + length points \<le> length cols"
    and "\<forall>j < length points. points ! j \<noteq> [] \<longrightarrow> (\<exists>v. value_cast ext (fst (snd (cols ! (k + j)))) (points ! j) = Inr v)"
  shows "\<exists>cols'. fold_exn (decode_point ext fm) (enumerate k points) cols = Inr cols' \<and> length cols' = length cols \<and>
     (\<forall>j < length cols. fst (cols' ! j) = fst (cols ! j) \<and> fst (snd (cols' ! j)) = fst (snd (cols ! j)) \<and>
        snd (snd (cols' ! j)) = snd (snd (cols ! j)) @
          (if k \<le> j \<and> j < k + length points then field_entry ext fm (fst (snd (cols ! j))) (points ! (j - k)) else []))"
  using assms
proof (induction points arbitrary: k cols)
  case Nil
  then show ?case by auto
next
  case (Cons p ps)
  have k: "k < length cols" using Cons.prems(1) by simp
  have "p \<noteq> [] \<longrightarrow> (\<exists>v. value_cast ext (fst (snd (cols ! k))) p = Inr v)"
    using Cons.prems(2) by force
  from decode_point_ok[OF k this, of fm] obtain c1 where
    c1: "decode_point ext fm (k, p) cols = Inr c1" "length c1 = length cols"
    and c1n: "\<forall>j < length cols. fst (c1 ! j) = fst (cols ! j) \<and> fst (snd (c1 ! j)) = fst (snd (cols ! j)) \<and>
        snd (snd (c1 ! j)) = snd (snd (cols ! j)) @ (if j = k then field_entry ext fm (fst (snd (cols ! j))) p else [])"
    by blast
  have a1: "Suc k + length ps \<le> length c1" using Cons.prems(1) c1(2) by simp
  have a2: "\<forall>j < length ps. ps ! j \<noteq> [] \<longrightarrow> (\<exists>v. value_cast ext (fst (snd (c1 ! (Suc k + j)))) (ps ! j) = Inr v)"
  proof (intro allI impI)
    fix j assume j: "j < length ps" and ne: "ps ! j \<noteq> []"
    have "Suc k + j < length cols" using j Cons.prems(1) by simp
    then have "fst (snd (c1 ! (Suc k + j))) = fst (snd (cols ! (k + Suc j)))" using c1n by simp
    moreover have "\<exists>v. value_cast ext (fst (snd (cols ! (k + Suc j)))) ((p # ps) ! Suc j) = Inr v"
      using Cons.prems(2) j ne by (metis Suc_less_eq length_Cons nth_Cons_Suc)
    ultimately show "\<exists>v. value_cast ext (fst (snd (c1 ! (Suc k + j)))) (ps ! j) = Inr v" by simp
  qed
  from Cons.IH[OF a1 a2] obtain c2 where
    c2: "fold_exn (decode_point ext fm) (enumerate (Suc k) ps) c1 = Inr c2" "length c2 = length c1"
    and c2n: "\<forall>j < length c1. fst (c2 ! j) = fst (c1 ! j) \<and> fst (snd (c2 ! j)) = fst (snd (c1 ! j)) \<and>
        snd (snd (c2 ! j)) = snd (snd (c1 ! j)) @
          (if Suc k \<le> j \<and> j < Suc k + length ps then field_entry ext fm (fst (snd (c1 ! j))) (ps ! (j - Suc k)) else [])"
    by blast
  have "fold_exn (decode_point ext fm) (enumerate k (p # ps)) cols = Inr c2"
    using c1(1) c2(1) by simp
  moreover have "length c2 = length cols" using c1(2) c2(2) by simp
  moreover have "\<forall>j < length cols. fst (c2 ! j) = fst (cols ! j) \<and> fst (snd (c2 ! j)) = fst (snd (cols ! j)) \<and>
        snd (snd (c2 ! j)) = snd (snd (cols ! j)) @
          (if k \<le> j \<and> j < k + length (p # ps) then field_entry ext fm (fst (snd (cols ! j))) ((p # ps) ! (j - k)) else [])"
  proof (intro allI impI)
    fix j assume j: "j < length cols"
    then have j1: "j < length c1" using c1(2) by simp
    note A = c1n[rule_format, OF j] and B = c2n[rule_format, OF j1]
    show "fst (c2 ! j) = fst (cols ! j) \<and> fst (snd (c2 ! j)) = fst (snd (cols ! j)) \<and>
        snd (snd (c2 ! j)) = snd (snd (cols ! j)) @
          (if k \<le> j \<and> j < k + length (p # ps) then field_entry ext fm (fst (snd (cols ! j))) ((p # ps) ! (j - k)) else [])"
    proof (cases "j = k")
      case True
      then show ?thesis using A B by simp
    next
      case False
      then show ?thesis using A B by (auto simp: nth_Cons' Suc_diff_Suc)
    qed
  qed
  ultimately show ?case by blast
qed

lemma grows_by_trans:
  "grows_by a b f \<Longrightarrow> grows_by b c g \<Longrightarrow> grows_by a c (\<lambda>j. f j @ g j)"
  by (simp add: grows_by_def)

lemma grows_by_cong:
  "grows_by a b f \<Longrightarrow> (\<And>j. j < length a \<Longrightarrow> f j = g j) \<Longrightarrow> grows_by a b g"
  by (simp add: grows_by_def)

lemma grows_by_types:
  "grows_by a b f \<Longrightarrow> map (\<lambda>c. fst (snd c)) b = map (\<lambda>c. fst (snd c)) a"
  by (auto simp: grows_by_def intro: nth_equalityI)

lemma decode_row_ok:
  assumes d: "d \<noteq> []"
    and ok: "casts_ok ext (map (\<lambda>c. fst (snd c)) cols) (split_from d [] r)"
  shows "\<exists>cols'. decode_row ext fm d r cols = Inr cols' \<and>
     grows_by cols cols' (\<lambda>j. row_entry ext fm (fst (snd (cols ! j))) j (split_from d [] r))"
proof -
  let ?ps = "split_from d [] r"
  have 1: "0 + length ?ps \<le> length cols" using ok by (simp add: casts_ok_def)
  have 2: "\<forall>j < length ?ps. ?ps ! j \<noteq> [] \<longrightarrow>
      (\<exists>v. value_cast ext (fst (snd (cols ! (0 + j)))) (?ps ! j) = Inr v)"
    using ok by (auto simp: casts_ok_def)
  from decode_points_ok[OF 1 2, of fm] show ?thesis
    using d by (auto simp: decode_row_def split_def grows_by_def row_entry_def)
qed

lemma decode_rows_ok:
  assumes d: "d \<noteq> []"
    and ok: "\<forall>r \<in> set rows. casts_ok ext (map (\<lambda>c. fst (snd c)) cols) (split_from d [] r)"
  shows "\<exists>cols'. fold_exn (decode_row ext fm d) rows cols = Inr cols' \<and>
     grows_by cols cols'
       (\<lambda>j. concat (map (\<lambda>r. row_entry ext fm (fst (snd (cols ! j))) j (split_from d [] r)) rows))"
  using ok
proof (induction rows arbitrary: cols)
  case Nil
  show ?case by (simp add: grows_by_def)
next
  case (Cons r rows)
  from decode_row_ok[OF d, of ext cols r fm] Cons.prems obtain c1 where
    c1: "decode_row ext fm d r cols = Inr c1"
    and g1: "grows_by cols c1 (\<lambda>j. row_entry ext fm (fst (snd (cols ! j))) j (split_from d [] r))"
    by auto
  have ty: "map (\<lambda>c. fst (snd c)) c1 = map (\<lambda>c. fst (snd c)) cols" by (rule grows_by_types[OF g1])
  have "\<forall>r \<in> set rows. casts_ok ext (map (\<lambda>c. fst (snd c)) c1) (split_from d [] r)"
    using Cons.prems ty by simp
  from Cons.IH[OF this] obtain c2 where
    c2: "fold_exn (decode_row ext fm d) rows c1 = Inr c2"
    and g2: "grows_by c1 c2
       (\<lambda>j. concat (map (\<lambda>r. row_entry ext fm (fst (snd (c1 ! j))) j (split_from d [] r)) rows))"
    by blast
  have "fold_exn (decode_row ext fm d) (r # rows) cols = Inr c2" using c1 c2 by simp
  moreover have "grows_by cols c2
       (\<lambda>j. concat (map (\<lambda>r. row_entry ext fm (fst (snd (cols ! j))) j (split_from d [] r)) (r # rows)))"
  proof (rule grows_by_cong[OF grows_by_trans[OF g1 g2]])
    fix j assume "j < length cols"
    then have "fst (snd (c1 ! j)) = fst (snd (cols ! j))" using g1 by (simp add: grows_by_def)
    then show "row_entry ext fm (fst (snd (cols ! j))) j (split_from d [] r) @
         concat (map (\<lambda>r. row_entry ext fm (fst (snd (c1 ! j))) j (split_from d [] r)) rows) =
         concat (map (\<lambda>r. row_entry ext fm (fst (snd (cols ! j))) j (split_from d [] r)) (r # rows))"
      by simp
  qed
  ultimately show ?case by blast
qed

lemma update_fresh: "k \<notin> fst ` set al \<Longrightarrow> AList.update k v al = al @ [(k, v)]"
  by (induction al) auto

lemma frame_of_fold_distinct:
  "distinct (map fst acc @ map fst cols) \<Longrightarrow>
   fold (\<lambda>c d. AList.update (fst c) (snd (snd c)) d) cols acc = acc @ map (\<lambda>c. (fst c, snd (snd c))) cols"
proof (induction cols arbitrary: acc)
  case Nil
  show ?case by simp
next
  case (Cons c cols)
  have "fst c \<notin> fst ` set acc" using Cons.prems by auto
  then have u: "AList.update (fst c) (snd (snd c)) acc = acc @ [(fst c, snd (snd c))]"
    by (rule update_fresh)
  have "distinct (map fst (acc @ [(fst c, snd (snd c))]) @ map fst cols)" using Cons.prems by auto
  from Cons.IH[OF this] show ?case using u by simp
qed

lemma frame_of_distinct:
  "distinct (map fst cols) \<Longrightarrow> frame_of cols = map (\<lambda>c. (fst c, snd (snd c))) cols"
  using frame_of_fold_distinct[of "[]" cols] by (simp add: frame_of_def)

lemma map_exn_ok:
  "(\<And>x. x \<in> set xs \<Longrightarrow> f x = Inr (g x)) \<Longrightarrow> map_exn f xs = Inr (map g xs)"
  by (induction xs) auto

lemma logdata_dict_data_list:
  assumes cm: "mnem_cast_map (logCurveInfo lg) = Inr cm"
    and ld: "logData lg = ld # rest"
    and d: "delimiter_of lg \<noteq> []"
    and known: "\<forall>m \<in> set (split_from (delimiter_of lg) [] (mnemonicList ld)). map_of cm m \<noteq> None"
    and ok: "\<forall>r \<in> set (data ld).
               casts_ok ext (map (\<lambda>m. the (map_of cm m)) (split_from (delimiter_of lg) [] (mnemonicList ld)))
                 (split_from (delimiter_of lg) [] r)"
  shows "logdata_dict ext lg fm =
     Inr (frame_of (map (\<lambda>j. (split_from (delimiter_of lg) [] (mnemonicList ld) ! j,
                    the (map_of cm (split_from (delimiter_of lg) [] (mnemonicList ld) ! j)),
                    column_values ext fm (the (map_of cm (split_from (delimiter_of lg) [] (mnemonicList ld) ! j))) j
                      (map (split_from (delimiter_of lg) []) (data ld))))
            [0..<length (split_from (delimiter_of lg) [] (mnemonicList ld))]))"
proof -
  define dl where "dl = delimiter_of lg"
  define mnems where "mnems = split_from dl [] (mnemonicList ld)"
  define cols where "cols = map (\<lambda>m. (m, the (map_of cm m), [] :: pyval list)) mnems"
  define final where "final = map (\<lambda>j. (mnems ! j, the (map_of cm (mnems ! j)),
      column_values ext fm (the (map_of cm (mnems ! j))) j (map (split_from dl []) (data ld)))) [0..<length mnems]"
  have dl: "dl \<noteq> []" using d by (simp add: dl_def)
  have hdr: "map_exn (\<lambda>mnem. case getitem cm mnem of Inl e \<Rightarrow> Inl e | Inr t \<Rightarrow> Inr (mnem, t, [])) mnems = Inr cols"
    unfolding cols_def
  proof (rule map_exn_ok)
    fix m assume "m \<in> set mnems"
    then have "map_of cm m \<noteq> None" using known by (simp add: mnems_def dl_def)
    then show "(case getitem cm m of Inl e \<Rightarrow> Inl e | Inr t \<Rightarrow> Inr (m, t, [])) = Inr (m, the (map_of cm m), [])"
      by (auto simp: getitem_def)
  qed
  have tys: "map (\<lambda>c. fst (snd c)) cols = map (\<lambda>m. the (map_of cm m)) mnems"
    by (simp add: cols_def comp_def)
  have "\<forall>r \<in> set (data ld). casts_ok ext (map (\<lambda>c. fst (snd c)) cols) (split_from dl [] r)"
    using ok tys by (simp add: mnems_def dl_def)
  from decode_rows_ok[OF dl this, of fm] obtain cols' where
    run: "fold_exn (decode_row ext fm dl) (data ld) cols = Inr cols'"
    and g: "grows_by cols cols'
       (\<lambda>j. concat (map (\<lambda>r. row_entry ext fm (fst (snd (cols ! j))) j (split_from dl [] r)) (data ld)))"
    by blast
  have len: "length cols' = length mnems" using g by (simp add: grows_by_def cols_def)
  have "cols' = final"
  proof (rule nth_equalityI)
    show "length cols' = length final" using len by (simp add: final_def)
  next
    fix j assume "j < length cols'"
    then have j: "j < length mnems" using len by simp
    then have jc: "j < length cols" by (simp add: cols_def)
    have "fst (cols' ! j) = mnems ! j" using g jc by (simp add: grows_by_def cols_def)
    moreover have "fst (snd (cols' ! j)) = the (map_of cm (mnems ! j))"
      using g jc j by (simp add: grows_by_def cols_def)
    moreover have "snd (snd (cols' ! j)) =
        column_values ext fm (the (map_of cm (mnems ! j))) j (map (split_from dl []) (data ld))"
      using g jc j by (simp add: grows_by_def cols_def column_values_def comp_def)
    ultimately show "cols' ! j = final ! j"
      using j by (simp add: final_def prod_eq_iff)
  qed
  moreover have "logdata_dict ext lg fm = Inr (frame_of cols')"
    using cm ld dl hdr run
    by (simp add: logdata_dict_def split_def mnems_def[symmetric] dl_def[symmetric] del: fold_exn.simps map_exn.simps)
  ultimately show ?thesis by (simp add: final_def mnems_def dl_def)
qed

section \<open>Claims about the log decoder\<close>

lemma example_cm: "mnem_cast_map (logCurveInfo (example_log rows)) = Inr [(''DEPT'', Py_float), (''GR'', Py_float)]"
  by (simp add: example_log_def mnem_cast_map_def getitem_def LOG_PRIM_TYPES_def)

lemma split_examples:
  "split_from '','' [] ''DEPT,GR'' = [''DEPT'', ''GR'']"
  "split_from '','' [] ''100.0,50.2'' = [''100.0'', ''50.2'']"
  "split_from '','' [] ''100.1,'' = [''100.1'', '''']"
  "split_from '','' [] ''100.1'' = [''100.1'']"
  by simp_all

lemma sample_float_examples:
  "sample_float ''100.0'' = Inr (PyFloat 100)"
  "sample_float ''100.1'' = Inr (PyFloat (1001 / 10))"
  "sample_float ''50.2'' = Inr (PyFloat (251 / 5))"
  by (simp_all add: sample_float_def digit_def)

text \<open>
  C4. When the header of the log is well formed and every row has at most as many fields
  as there are mnemonics, each non-empty field being accepted by the type of its column,
  \<^verbatim>\<open>logdata_dict\<close> returns the frame of the columns in which column \<open>j\<close> holds, row
  after row, the cast of field \<open>j\<close> when it is non-empty, \<^verbatim>\<open>None\<close> when it is empty and
  \<open>fill_missing\<close> is set, and nothing otherwise (\<open>field_entry\<close>). On the rows
  \<^verbatim>\<open>["100.0,50.2", "100.1,"]\<close> this gives \<^verbatim>\<open>{"DEPT": [100.0, 100.1], "GR": [50.2, None]}\<close>
  with \<open>fill_missing\<close> and \<^verbatim>\<open>{"DEPT": [100.0, 100.1], "GR": [50.2]}\<close> without.
\<close>

theorem logdata_dict_appends_fields:
  assumes "mnem_cast_map (logCurveInfo lg) = Inr cm"
    and "logData lg = ld # rest"
    and "delimiter_of lg \<noteq> []"
    and "\<forall>m \<in> set (split_from (delimiter_of lg) [] (mnemonicList ld)). map_of cm m \<noteq> None"
    and "\<forall>r \<in> set (data ld).
               casts_ok ext (map (\<lambda>m. the (map_of cm m)) (split_from (delimiter_of lg) [] (mnemonicList ld)))
                 (split_from (delimiter_of lg) [] r)"
  shows "logdata_dict ext lg fill_missing =
     Inr (frame_of (map (\<lambda>j. (split_from (delimiter_of lg) [] (mnemonicList ld) ! j,
                    the (map_of cm (split_from (delimiter_of lg) [] (mnemonicList ld) ! j)),
                    column_values ext fill_missing (the (map_of cm (split_from (delimiter_of lg) [] (mnemonicList ld) ! j))) j
                      (map (split_from (delimiter_of lg) []) (data ld))))
            [0..<length (split_from (delimiter_of lg) [] (mnemonicList ld))]))"
  using assms by (rule logdata_dict_data_list)

theorem logdata_dict_appends_fields_witness:
  "logdata_dict sample_ext (example_log [''100.0,50.2'', ''100.1,'']) True =
     Inr [(''DEPT'', [PyFloat 100, PyFloat (1001 / 10)]), (''GR'', [PyFloat (251 / 5), PyNone])] \<and>
   logdata_dict sample_ext (example_log [''100.0,50.2'', ''100.1,'']) False =
     Inr [(''DEPT'', [PyFloat 100, PyFloat (1001 / 10)]), (''GR'', [PyFloat (251 / 5)])]"
proof -
  let ?lg = "example_log [''100.0,50.2'', ''100.1,'']"
  let ?ld = "\<lparr>mnemonicList = ''DEPT,GR'', data = [''100.0,50.2'', ''100.1,'']\<rparr>"
  have 1: "mnem_cast_map (logCurveInfo ?lg) = Inr [(''DEPT'', Py_float), (''GR'', Py_float)]"
    by (rule example_cm)
  have 2: "logData ?lg = ?ld # []" by (simp add: example_log_def)
  have d: "delimiter_of ?lg = '',''" by (simp add: delimiter_of_def example_log_def)
  have 3: "delimiter_of ?lg \<noteq> []" by (simp add: d)
  have 4: "\<forall>m \<in> set (split_from (delimiter_of ?lg) [] (mnemonicList ?ld)).
             map_of [(''DEPT'', Py_float), (''GR'', Py_float)] m \<noteq> None"
    by (simp add: d)
  have 5: "\<forall>r \<in> set (data ?ld).
             casts_ok sample_ext (map (\<lambda>m. the (map_of [(''DEPT'', Py_float), (''GR'', Py_float)] m))
                 (split_from (delimiter_of ?lg) [] (mnemonicList ?ld)))
               (split_from (delimiter_of ?lg) [] r)"
    by (simp add: d casts_ok_def value_cast_def sample_ext_def sample_float_examples nth_Cons' less_Suc_eq)
  note inst = logdata_dict_appends_fields[OF 1 2 3 4 5]
  have "[0..<2] = [0, Suc 0]" by (simp add: upt_rec)
  then show ?thesis
    unfolding inst
    by (simp add: d frame_of_def column_values_def row_entry_def field_entry_def value_cast_def
        sample_ext_def sample_float_examples)
qed

subsection \<open>Further data sections\<close>

text \<open>
  C8. Only the first \<^verbatim>\<open>logData\<close> section is read. Any further sections can be dropped
  without changing the result, whether a frame or an exception; and when the header is
  well formed and the rows of the first section decode, the keys of the frame are the
  mnemonics of \<^verbatim>\<open>logData[0].mnemonicList\<close>, in order, and the column of each is made of
  the fields of the rows of \<^verbatim>\<open>logData[0].data\<close>, whatever the further sections hold.
\<close>

theorem logdata_dict_first_section:
  assumes "logData lg = ld # rest"
  shows "logdata_dict ext lg fill_missing = logdata_dict ext (lg\<lparr>logData := [ld]\<rparr>) fill_missing \<and>
    (mnem_cast_map (logCurveInfo lg) = Inr cm \<and> delimiter_of lg \<noteq> [] \<and>
     (\<forall>m \<in> set (split_from (delimiter_of lg) [] (mnemonicList ld)). map_of cm m \<noteq> None) \<and>
     distinct (split_from (delimiter_of lg) [] (mnemonicList ld)) \<and>
     (\<forall>r \<in> set (data ld).
        casts_ok ext (map (\<lambda>m. the (map_of cm m)) (split_from (delimiter_of lg) [] (mnemonicList ld)))
          (split_from (delimiter_of lg) [] r)) \<longrightarrow>
     logdata_dict ext lg fill_missing =
       Inr (map (\<lambda>j. (split_from (delimiter_of lg) [] (mnemonicList ld) ! j,
                      column_values ext fill_missing
                        (the (map_of cm (split_from (delimiter_of lg) [] (mnemonicList ld) ! j))) j
                        (map (split_from (delimiter_of lg) []) (data ld))))
              [0..<length (split_from (delimiter_of lg) [] (mnemonicList ld))]))"
proof (intro conjI impI)
  show "logdata_dict ext lg fill_missing = logdata_dict ext (lg\<lparr>logData := [ld]\<rparr>) fill_missing"
    using assms by (simp add: logdata_dict_def delimiter_of_def Let_def cong: sum.case_cong)
next
  define mnems where "mnems = split_from (delimiter_of lg) [] (mnemonicList ld)"
  define cols where "cols = map (\<lambda>j. (mnems ! j, the (map_of cm (mnems ! j)),
                    column_values ext fill_missing (the (map_of cm (mnems ! j))) j
                      (map (split_from (delimiter_of lg) []) (data ld)))) [0..<length mnems]"
  assume a: "mnem_cast_map (logCurveInfo lg) = Inr cm \<and> delimiter_of lg \<noteq> [] \<and>
     (\<forall>m \<in> set (split_from (delimiter_of lg) [] (mnemonicList ld)). map_of cm m \<noteq> None) \<and>
     distinct (split_from (delimiter_of lg) [] (mnemonicList ld)) \<and>
     (\<forall>r \<in> set (data ld).
        casts_ok ext (map (\<lambda>m. the (map_of cm m)) (split_from (delimiter_of lg) [] (mnemonicList ld)))
          (split_from (delimiter_of lg) [] r))"
  then have 1: "mnem_cast_map (logCurveInfo lg) = Inr cm" and 3: "delimiter_of lg \<noteq> []"
    and 4: "\<forall>m \<in> set (split_from (delimiter_of lg) [] (mnemonicList ld)). map_of cm m \<noteq> None"
    and 5: "distinct (split_from (delimiter_of lg) [] (mnemonicList ld))"
    and 6: "\<forall>r \<in> set (data ld).
        casts_ok ext (map (\<lambda>m. the (map_of cm m)) (split_from (delimiter_of lg) [] (mnemonicList ld)))
          (split_from (delimiter_of lg) [] r)"
    by blast+
  have run: "logdata_dict ext lg fill_missing = Inr (frame_of cols)"
    unfolding cols_def mnems_def by (rule logdata_dict_data_list[OF 1 assms 3 4 6])
  have "map fst cols = mnems" by (auto simp: cols_def intro: nth_equalityI)
  then have "distinct (map fst cols)" using 5 by (simp add: mnems_def)
  then have "frame_of cols = map (\<lambda>c. (fst c, snd (snd c))) cols" by (rule frame_of_distinct)
  also have "\<dots> = map (\<lambda>j. (mnems ! j, column_values ext fill_missing (the (map_of cm (mnems ! j))) j
                      (map (split_from (delimiter_of lg) []) (data ld)))) [0..<length mnems]"
    by (simp add: cols_def comp_def)
  finally show "logdata_dict ext lg fill_missing =
       Inr (map (\<lambda>j. (split_from (delimiter_of lg) [] (mnemonicList ld) ! j,
                      column_values ext fill_missing
                        (the (map_of cm (split_from (delimiter_of lg) [] (mnemonicList ld) ! j))) j
                        (map (split_from (delimiter_of lg) []) (data ld))))
              [0..<length (split_from (delimiter_of lg) [] (mnemonicList ld))])"
    using run by (simp add: mnems_def)
qed

theorem logdata_dict_first_section_witness:
  "logdata_dict sample_ext
     ((example_log [''100.0,50.2'', ''100.1,''])\<lparr>logData :=
         [\<lparr>mnemonicList = ''DEPT,GR'', data = [''100.0,50.2'', ''100.1,'']\<rparr>,
          \<lparr>mnemonicList = ''TIME'', data = [''7'']\<rparr>]\<rparr>) True =
   Inr [(''DEPT'', [PyFloat 100, PyFloat (1001 / 10)]), (''GR'', [PyFloat (251 / 5), PyNone])] \<and>
   logdata_dict sample_ext
     ((example_log [''100.0,50.2'', ''100.1,''])\<lparr>logData :=
         [\<lparr>mnemonicList = ''DEPT,GR'', data = [''100.0,50.2'', ''100.1,'']\<rparr>,
          \<lparr>mnemonicList = ''TIME'', data = [''7'']\<rparr>]\<rparr>) True =
   logdata_dict sample_ext (example_log [''100.0,50.2'', ''100.1,'']) True"
proof -
  let ?ld = "\<lparr>mnemonicList = ''DEPT,GR'', data = [''100.0,50.2'', ''100.1,'']\<rparr>"
  let ?rest = "[\<lparr>mnemonicList = ''TIME'', data = [''7'']\<rparr>]"
  let ?lg = "(example_log [''100.0,50.2'', ''100.1,''])\<lparr>logData := ?ld # ?rest\<rparr>"
  let ?cm = "[(''DEPT'', Py_float), (''GR'', Py_float)]"
  have 0: "logData ?lg = ?ld # ?rest" by simp
  have d: "delimiter_of ?lg = '',''" by (simp add: delimiter_of_def example_log_def)
  have cm: "mnem_cast_map (logCurveInfo ?lg) = Inr ?cm"
    by (simp add: example_log_def mnem_cast_map_def getitem_def LOG_PRIM_TYPES_def)
  have h: "mnem_cast_map (logCurveInfo ?lg) = Inr ?cm \<and> delimiter_of ?lg \<noteq> [] \<and>
     (\<forall>m \<in> set (split_from (delimiter_of ?lg) [] (mnemonicList ?ld)). map_of ?cm m \<noteq> None) \<and>
     distinct (split_from (delimiter_of ?lg) [] (mnemonicList ?ld)) \<and>
     (\<forall>r \<in> set (data ?ld).
        casts_ok sample_ext (map (\<lambda>m. the (map_of ?cm m)) (split_from (delimiter_of ?lg) [] (mnemonicList ?ld)))
          (split_from (delimiter_of ?lg) [] r))"
    unfolding d using cm
    by (simp add: casts_ok_def value_cast_def sample_ext_def sample_float_examples nth_Cons' less_Suc_eq)
  note inst = logdata_dict_first_section[OF 0, where ext = sample_ext and fill_missing = True and cm = ?cm]
  have up: "[0..<2] = [0, Suc 0]" by (simp add: upt_rec)
  have 1: "logdata_dict sample_ext ?lg True =
     Inr [(''DEPT'', [PyFloat 100, PyFloat (1001 / 10)]), (''GR'', [PyFloat (251 / 5), PyNone])]"
    using inst[THEN conjunct2, rule_format, OF h] up
    by (simp add: d column_values_def row_entry_def field_entry_def value_cast_def
        sample_ext_def sample_float_examples)
  have 2: "logdata_dict sample_ext ?lg True = logdata_dict sample_ext (example_log [''100.0,50.2'', ''100.1,'']) True"
    using inst[THEN conjunct1] by (simp add: example_log_def)
  from 1 2 show ?thesis by simp
qed

subsection \<open>Rows shorter than the mnemonic list\<close>

lemma length_row_entry: "length (row_entry ext fm t j ps) \<le> 1"
  by (simp add: row_entry_def field_entry_def split: sum.splits)

lemma length_column_values: "length (column_values ext fm t j rows) \<le> length rows"
proof (induction rows)
  case Nil
  show ?case by (simp add: column_values_def)
next
  case (Cons r rows)
  have "length (row_entry ext fm t j r) \<le> 1" by (rule length_row_entry)
  with Cons show ?case by (simp add: column_values_def)
qed

lemma length_column_values_short:
  assumes "ps \<in> set rows" and "length ps \<le> j"
  shows "length (column_values ext fm t j rows) < length rows"
  using assms
proof (induction rows)
  case Nil
  then show ?case by simp
next
  case (Cons r rows)
  show ?case
  proof (cases "ps = r")
    case True
    then have "row_entry ext fm t j r = []" using Cons.prems(2) by (simp add: row_entry_def)
    moreover have "length (column_values ext fm t j rows) \<le> length rows" by (rule length_column_values)
    ultimately show ?thesis by (simp add: column_values_def)
  next
    case False
    then have "length (column_values ext fm t j rows) < length rows" using Cons by simp
    moreover have "length (row_entry ext fm t j r) \<le> 1" by (rule length_row_entry)
    ultimately show ?thesis by (simp add: column_values_def)
  qed
qed

lemma map_of_frame_of_distinct:
  assumes "distinct (map fst cols)" and "j < length cols"
  shows "map_of (frame_of cols) (fst (cols ! j)) = Some (snd (snd (cols ! j)))"
proof -
  have "frame_of cols = map (\<lambda>c. (fst c, snd (snd c))) cols" using assms(1) by (rule frame_of_distinct)
  moreover have "distinct (map fst (map (\<lambda>c. (fst c, snd (snd c))) cols))"
    using assms(1) by (simp add: comp_def)
  moreover have "(fst (cols ! j), snd (snd (cols ! j))) \<in> set (map (\<lambda>c. (fst c, snd (snd c))) cols)"
    using assms(2) by (auto intro!: image_eqI[where x = "cols ! j"])
  ultimately show ?thesis by simp
qed

text \<open>
  C10. A row with fewer fields than there are mnemonics does not make \<^verbatim>\<open>logdata_dict\<close>
  fail. The row contributes nothing to a column \<open>j\<close> it has no field for, also when
  \<open>fill_missing\<close> is set, so that column ends up shorter than the number of rows.
\<close>

theorem logdata_dict_short_row:
  assumes "mnem_cast_map (logCurveInfo lg) = Inr cm"
    and "logData lg = ld # rest"
    and "delimiter_of lg \<noteq> []"
    and "\<forall>m \<in> set (split_from (delimiter_of lg) [] (mnemonicList ld)). map_of cm m \<noteq> None"
    and "distinct (split_from (delimiter_of lg) [] (mnemonicList ld))"
    and "\<forall>r \<in> set (data ld).
               casts_ok ext (map (\<lambda>m. the (map_of cm m)) (split_from (delimiter_of lg) [] (mnemonicList ld)))
                 (split_from (delimiter_of lg) [] r)"
    and "r \<in> set (data ld)"
    and "length (split_from (delimiter_of lg) [] r) \<le> j"
    and "j < length (split_from (delimiter_of lg) [] (mnemonicList ld))"
  shows "\<exists>frame values. logdata_dict ext lg True = Inr frame \<and>
           map_of frame (split_from (delimiter_of lg) [] (mnemonicList ld) ! j) = Some values \<and>
           values = column_values ext True (the (map_of cm (split_from (delimiter_of lg) [] (mnemonicList ld) ! j))) j
                      (map (split_from (delimiter_of lg) []) (data ld)) \<and>
           row_entry ext True (the (map_of cm (split_from (delimiter_of lg) [] (mnemonicList ld) ! j))) j
              (split_from (delimiter_of lg) [] r) = [] \<and>
           length values < length (data ld)"
proof -
  define mnems where "mnems = split_from (delimiter_of lg) [] (mnemonicList ld)"
  define cols where "cols = map (\<lambda>j. (mnems ! j, the (map_of cm (mnems ! j)),
                    column_values ext True (the (map_of cm (mnems ! j))) j
                      (map (split_from (delimiter_of lg) []) (data ld)))) [0..<length mnems]"
  have run: "logdata_dict ext lg True = Inr (frame_of cols)"
    unfolding cols_def mnems_def by (rule logdata_dict_data_list[OF assms(1-4) assms(6)])
  have j: "j < length cols" using assms(9) by (simp add: cols_def mnems_def)
  have names: "map fst cols = mnems" by (auto simp: cols_def intro: nth_equalityI)
  then have "distinct (map fst cols)" using assms(5) by (simp add: mnems_def)
  from map_of_frame_of_distinct[OF this j]
  have look: "map_of (frame_of cols) (mnems ! j) =
      Some (column_values ext True (the (map_of cm (mnems ! j))) j (map (split_from (delimiter_of lg) []) (data ld)))"
    using j by (simp add: cols_def)
  have "split_from (delimiter_of lg) [] r \<in> set (map (split_from (delimiter_of lg) []) (data ld))"
    using assms(7) by simp
  from length_column_values_short[OF this assms(8)]
  have short: "length (column_values ext True (the (map_of cm (mnems ! j))) j
      (map (split_from (delimiter_of lg) []) (data ld))) < length (data ld)"
    by simp
  have "row_entry ext True (the (map_of cm (mnems ! j))) j (split_from (delimiter_of lg) [] r) = []"
    using assms(8) by (simp add: row_entry_def)
  with run look short show ?thesis unfolding mnems_def by blast
qed

theorem logdata_dict_short_row_witness:
  "\<exists>values. logdata_dict sample_ext (example_log [''100.0,50.2'', ''100.1'']) True =
     Inr [(''DEPT'', [PyFloat 100, PyFloat (1001 / 10)]), (''GR'', values)] \<and> length values < 2"
proof -
  let ?lg = "example_log [''100.0,50.2'', ''100.1'']"
  let ?ld = "\<lparr>mnemonicList = ''DEPT,GR'', data = [''100.0,50.2'', ''100.1'']\<rparr>"
  have 1: "mnem_cast_map (logCurveInfo ?lg) = Inr [(''DEPT'', Py_float), (''GR'', Py_float)]"
    by (rule example_cm)
  have 2: "logData ?lg = ?ld # []" by (simp add: example_log_def)
  have d: "delimiter_of ?lg = '',''" by (simp add: delimiter_of_def example_log_def)
  have 3: "delimiter_of ?lg \<noteq> []" by (simp add: d)
  have 4: "\<forall>m \<in> set (split_from (delimiter_of ?lg) [] (mnemonicList ?ld)).
             map_of [(''DEPT'', Py_float), (''GR'', Py_float)] m \<noteq> None"
    by (simp add: d)
  have 5: "distinct (split_from (delimiter_of ?lg) [] (mnemonicList ?ld))" by (simp add: d)
  have 6: "\<forall>r \<in> set (data ?ld).
             casts_ok sample_ext (map (\<lambda>m. the (map_of [(''DEPT'', Py_float), (''GR'', Py_float)] m))
                 (split_from (delimiter_of ?lg) [] (mnemonicList ?ld)))
               (split_from (delimiter_of ?lg) [] r)"
    by (simp add: d casts_ok_def value_cast_def sample_ext_def sample_float_examples nth_Cons' less_Suc_eq)
  have 7: "''100.1'' \<in> set (data ?ld)" by simp
  have 8: "length (split_from (delimiter_of ?lg) [] ''100.1'') \<le> 1" by (simp add: d)
  have 9: "1 < length (split_from (delimiter_of ?lg) [] (mnemonicList ?ld))" by (simp add: d)
  have "\<exists>frame values. logdata_dict sample_ext ?lg True = Inr frame \<and>
           map_of frame ''GR'' = Some values \<and> length values < 2"
    using logdata_dict_short_row[OF 1 2 3 4 5 6 7 8 9] by (auto simp: d)
  then obtain frame vs where f: "logdata_dict sample_ext ?lg True = Inr frame"
    and m: "map_of frame ''GR'' = Some vs" and l: "length vs < 2"
    by blast
  have "logdata_dict sample_ext ?lg True =
     Inr [(''DEPT'', [PyFloat 100, PyFloat (1001 / 10)]), (''GR'', [PyFloat (251 / 5)])]"
    by (simp add: example_log_def logdata_dict_def mnem_cast_map_def getitem_def LOG_PRIM_TYPES_def split_def
     decode_row_def decode_point_def value_cast_def append_to_def frame_of_def sample_ext_def sample_float_examples
     delimiter_of_def)
  with f m l show ?thesis by auto
qed

subsection \<open>Type names outside the table\<close>

lemma mnem_cast_map_fold_unknown:
  assumes "c \<in> set cs" and "map_of LOG_PRIM_TYPES (typeLogData c) = None"
  shows "\<exists>k. fold_exn (\<lambda>c m. case getitem LOG_PRIM_TYPES (typeLogData c) of
                        Inl e \<Rightarrow> Inl e
                      | Inr t \<Rightarrow> Inr (AList.update (mnemonic c) t m)) cs acc = Inl (KeyError k) \<and>
             map_of LOG_PRIM_TYPES k = None"
  using assms
proof (induction cs arbitrary: acc)
  case Nil
  then show ?case by simp
next
  case (Cons x cs)
  show ?case
  proof (cases "map_of LOG_PRIM_TYPES (typeLogData x)")
    case None
    then show ?thesis by (auto simp: getitem_def)
  next
    case (Some t)
    then have "c \<in> set cs" using Cons.prems by auto
    from Cons.IH[OF this Cons.prems(2)] show ?thesis using Some by (simp add: getitem_def)
  qed
qed

lemma mnem_cast_map_fold_text:
  assumes "\<forall>c \<in> set cs. typeLogData c = ''unknown''"
  shows "\<exists>cm. fold_exn (\<lambda>c m. case getitem LOG_PRIM_TYPES (typeLogData c) of
                        Inl e \<Rightarrow> Inl e
                      | Inr t \<Rightarrow> Inr (AList.update (mnemonic c) t m)) cs acc = Inr cm \<and>
              (\<forall>m. map_of cm m = (if m \<in> mnemonic ` set cs then Some Py_str else map_of acc m))"
  using assms
proof (induction cs arbitrary: acc)
  case Nil
  then show ?case by simp
next
  case (Cons c cs)
  have t: "getitem LOG_PRIM_TYPES (typeLogData c) = Inr Py_str"
    using Cons.prems by (simp add: getitem_def LOG_PRIM_TYPES_def)
  have "\<forall>c \<in> set cs. typeLogData c = ''unknown''" using Cons.prems by simp
  from Cons.IH[OF this, of "AList.update (mnemonic c) Py_str acc"] obtain cm where
    cm: "fold_exn (\<lambda>c m. case getitem LOG_PRIM_TYPES (typeLogData c) of
                        Inl e \<Rightarrow> Inl e
                      | Inr t \<Rightarrow> Inr (AList.update (mnemonic c) t m)) cs (AList.update (mnemonic c) Py_str acc) = Inr cm"
    and look: "\<forall>m. map_of cm m =
       (if m \<in> mnemonic ` set cs then Some Py_str else map_of (AList.update (mnemonic c) Py_str acc) m)"
    by blast
  have "\<forall>m. map_of cm m = (if m \<in> mnemonic ` set (c # cs) then Some Py_str else map_of acc m)"
    using look by (auto simp: update_conv')
  with cm t show ?case by simp
qed

lemma column_values_text:
  "column_values ext fill_missing Py_str j rows =
     concat (map (\<lambda>points. if j < length points
                    then (if points ! j \<noteq> [] then [PyStr (points ! j)]
                          else if fill_missing then [PyNone] else [])
                    else []) rows)"
proof -
  have "row_entry ext fill_missing Py_str j =
      (\<lambda>points. if j < length points
                    then (if points ! j \<noteq> [] then [PyStr (points ! j)]
                          else if fill_missing then [PyNone] else [])
                    else [])"
    by (rule HOL.ext) (simp add: row_entry_def field_entry_def value_cast_def)
  then show ?thesis by (simp only: column_values_def)
qed

text \<open>
  C2, as the code has it. A type name outside \<^verbatim>\<open>LOG_PRIM_TYPES\<close> is not treated as text:
  the subscript raises \<^verbatim>\<open>KeyError\<close> for such a name before any data is decoded. What is
  treated as text is the name \<^verbatim>\<open>unknown\<close>, which the table holds: for a log whose curves
  are declared \<^verbatim>\<open>unknown\<close>, with the mnemonics of its first section among those of the
  curves and no row longer than the mnemonic list, \<^verbatim>\<open>logdata_dict\<close> returns the frame in
  which every non-empty field stands as the string of its text, whatever the external
  constructors do.
\<close>

theorem logdata_dict_unrecognized_type:
  "(c \<in> set (logCurveInfo lg) \<and> map_of LOG_PRIM_TYPES (typeLogData c) = None \<longrightarrow>
      (\<exists>k. logdata_dict ext lg fill_missing = Inl (KeyError k) \<and> map_of LOG_PRIM_TYPES k = None)) \<and>
   ((\<forall>c \<in> set (logCurveInfo lg). typeLogData c = ''unknown'') \<and>
    logData lg = ld # rest \<and> delimiter_of lg \<noteq> [] \<and>
    set (split_from (delimiter_of lg) [] (mnemonicList ld)) \<subseteq> mnemonic ` set (logCurveInfo lg) \<and>
    (\<forall>r \<in> set (data ld). length (split_from (delimiter_of lg) [] r) \<le>
                             length (split_from (delimiter_of lg) [] (mnemonicList ld))) \<longrightarrow>
    logdata_dict ext lg fill_missing =
      Inr (frame_of (map (\<lambda>j. (split_from (delimiter_of lg) [] (mnemonicList ld) ! j, Py_str,
               concat (map (\<lambda>points. if j < length points
                              then (if points ! j \<noteq> [] then [PyStr (points ! j)]
                                    else if fill_missing then [PyNone] else [])
                              else [])
                         (map (split_from (delimiter_of lg) []) (data ld)))))
             [0..<length (split_from (delimiter_of lg) [] (mnemonicList ld))])))"
proof (intro conjI impI)
  assume "c \<in> set (logCurveInfo lg) \<and> map_of LOG_PRIM_TYPES (typeLogData c) = None"
  then obtain k where "mnem_cast_map (logCurveInfo lg) = Inl (KeyError k)" "map_of LOG_PRIM_TYPES k = None"
    unfolding mnem_cast_map_def using mnem_cast_map_fold_unknown by blast
  then show "\<exists>k. logdata_dict ext lg fill_missing = Inl (KeyError k) \<and> map_of LOG_PRIM_TYPES k = None"
    by (auto simp: logdata_dict_def)
next
  define mnems where "mnems = split_from (delimiter_of lg) [] (mnemonicList ld)"
  assume a: "(\<forall>c \<in> set (logCurveInfo lg). typeLogData c = ''unknown'') \<and>
    logData lg = ld # rest \<and> delimiter_of lg \<noteq> [] \<and>
    set (split_from (delimiter_of lg) [] (mnemonicList ld)) \<subseteq> mnemonic ` set (logCurveInfo lg) \<and>
    (\<forall>r \<in> set (data ld). length (split_from (delimiter_of lg) [] r) \<le>
                             length (split_from (delimiter_of lg) [] (mnemonicList ld)))"
  then have all: "\<forall>c \<in> set (logCurveInfo lg). typeLogData c = ''unknown''" by blast
  from mnem_cast_map_fold_text[OF all, of "[]"] obtain cm where
    cm: "mnem_cast_map (logCurveInfo lg) = Inr cm"
    and look: "\<forall>m. map_of cm m = (if m \<in> mnemonic ` set (logCurveInfo lg) then Some Py_str else None)"
    by (auto simp: mnem_cast_map_def)
  have ty: "\<And>m. m \<in> set mnems \<Longrightarrow> map_of cm m = Some Py_str"
    using a look by (auto simp: mnems_def)
  have known: "\<forall>m \<in> set mnems. map_of cm m \<noteq> None" using ty by simp
  have ok: "\<forall>r \<in> set (data ld). casts_ok ext (map (\<lambda>m. the (map_of cm m)) mnems) (split_from (delimiter_of lg) [] r)"
  proof
    fix r assume r: "r \<in> set (data ld)"
    then have len: "length (split_from (delimiter_of lg) [] r) \<le> length mnems" using a by (simp add: mnems_def)
    have "\<And>j. j < length (split_from (delimiter_of lg) [] r) \<Longrightarrow> map (\<lambda>m. the (map_of cm m)) mnems ! j = Py_str"
      using len ty by simp
    then show "casts_ok ext (map (\<lambda>m. the (map_of cm m)) mnems) (split_from (delimiter_of lg) [] r)"
      using len by (simp add: casts_ok_def value_cast_def)
  qed
  from a have ld: "logData lg = ld # rest" and d: "delimiter_of lg \<noteq> []" by blast+
  have "logdata_dict ext lg fill_missing =
     Inr (frame_of (map (\<lambda>j. (mnems ! j, the (map_of cm (mnems ! j)),
                    column_values ext fill_missing (the (map_of cm (mnems ! j))) j
                      (map (split_from (delimiter_of lg) []) (data ld))))
            [0..<length mnems]))"
    unfolding mnems_def
    by (rule logdata_dict_data_list[OF cm ld d known[unfolded mnems_def] ok[unfolded mnems_def]])
  also have "map (\<lambda>j. (mnems ! j, the (map_of cm (mnems ! j)),
                    column_values ext fill_missing (the (map_of cm (mnems ! j))) j
                      (map (split_from (delimiter_of lg) []) (data ld))))
            [0..<length mnems] =
        map (\<lambda>j. (mnems ! j, Py_str,
               concat (map (\<lambda>points. if j < length points
                              then (if points ! j \<noteq> [] then [PyStr (points ! j)]
                                    else if fill_missing then [PyNone] else [])
                              else [])
                         (map (split_from (delimiter_of lg) []) (data ld)))))
             [0..<length mnems]"
    using ty by (simp add: column_values_text)
  finally show "logdata_dict ext lg fill_missing =
      Inr (frame_of (map (\<lambda>j. (split_from (delimiter_of lg) [] (mnemonicList ld) ! j, Py_str,
               concat (map (\<lambda>points. if j < length points
                              then (if points ! j \<noteq> [] then [PyStr (points ! j)]
                                    else if fill_missing then [PyNone] else [])
                              else [])
                         (map (split_from (delimiter_of lg) []) (data ld)))))
             [0..<length (split_from (delimiter_of lg) [] (mnemonicList ld))]))"
    by (simp add: mnems_def)
qed

theorem logdata_dict_unrecognized_type_witness:
  "(\<exists>k. logdata_dict sample_ext
     ((example_log [''100.0,50.2''])\<lparr>logCurveInfo :=
        [\<lparr>mnemonic = ''DEPT'', typeLogData = ''double''\<rparr>, \<lparr>mnemonic = ''GR'', typeLogData = ''decimal''\<rparr>]\<rparr>)
     True = Inl (KeyError k) \<and> map_of LOG_PRIM_TYPES k = None) \<and>
   logdata_dict sample_ext
     ((example_log [''100.0,abc'', ''100.1,''])\<lparr>logCurveInfo :=
        [\<lparr>mnemonic = ''DEPT'', typeLogData = ''unknown''\<rparr>, \<lparr>mnemonic = ''GR'', typeLogData = ''unknown''\<rparr>]\<rparr>)
     True =
   Inr [(''DEPT'', [PyStr ''100.0'', PyStr ''100.1'']), (''GR'', [PyStr ''abc'', PyNone])]"
proof -
  let ?bad = "(example_log [''100.0,50.2''])\<lparr>logCurveInfo :=
        [\<lparr>mnemonic = ''DEPT'', typeLogData = ''double''\<rparr>, \<lparr>mnemonic = ''GR'', typeLogData = ''decimal''\<rparr>]\<rparr>"
  let ?lg = "(example_log [''100.0,abc'', ''100.1,''])\<lparr>logCurveInfo :=
        [\<lparr>mnemonic = ''DEPT'', typeLogData = ''unknown''\<rparr>, \<lparr>mnemonic = ''GR'', typeLogData = ''unknown''\<rparr>]\<rparr>"
  let ?ld = "\<lparr>mnemonicList = ''DEPT,GR'', data = [''100.0,abc'', ''100.1,'']\<rparr>"
  have 1: "\<exists>k. logdata_dict sample_ext ?bad True = Inl (KeyError k) \<and> map_of LOG_PRIM_TYPES k = None"
    using logdata_dict_unrecognized_type[where c = "\<lparr>mnemonic = ''GR'', typeLogData = ''decimal''\<rparr>"
      and lg = ?bad and ext = sample_ext and fill_missing = True]
    by (simp add: LOG_PRIM_TYPES_def example_log_def)
  have d: "delimiter_of ?lg = '',''" by (simp add: delimiter_of_def example_log_def)
  have h: "(\<forall>c \<in> set (logCurveInfo ?lg). typeLogData c = ''unknown'') \<and>
    logData ?lg = ?ld # [] \<and> delimiter_of ?lg \<noteq> [] \<and>
    set (split_from (delimiter_of ?lg) [] (mnemonicList ?ld)) \<subseteq> mnemonic ` set (logCurveInfo ?lg) \<and>
    (\<forall>r \<in> set (data ?ld). length (split_from (delimiter_of ?lg) [] r) \<le>
                             length (split_from (delimiter_of ?lg) [] (mnemonicList ?ld)))"
    by (simp add: d) (simp add: example_log_def)
  have "[0..<2] = [0, Suc 0]" by (simp add: upt_rec)
  then have 2: "logdata_dict sample_ext ?lg True =
      Inr [(''DEPT'', [PyStr ''100.0'', PyStr ''100.1'']), (''GR'', [PyStr ''abc'', PyNone])]"
    using logdata_dict_unrecognized_type[where lg = ?lg and ext = sample_ext and fill_missing = True
        and ld = ?ld and rest = "[]"] h
    by (simp add: d frame_of_def)
  from 1 2 show ?thesis by blast
qed

theorem logdata_dict_unrecognized_type_counterexample:
  "map_of LOG_PRIM_TYPES ''decimal'' = None \<and>
   logdata_dict sample_ext
     ((example_log [''100.0,50.2''])\<lparr>logCurveInfo :=
        [\<lparr>mnemonic = ''DEPT'', typeLogData = ''double''\<rparr>, \<lparr>mnemonic = ''GR'', typeLogData = ''decimal''\<rparr>]\<rparr>)
     True = Inl (KeyError ''decimal'')"
  by (simp add: example_log_def logdata_dict_def mnem_cast_map_def getitem_def LOG_PRIM_TYPES_def)

subsection \<open>A field that its type does not accept\<close>

lemma decode_row_fails:
  assumes d: "d \<noteq> []"
    and k: "k < length (split_from d [] r)" "k < length cols"
    and before: "\<forall>j < k. split_from d [] r ! j \<noteq> [] \<longrightarrow>
        (\<exists>v. value_cast ext (fst (snd (cols ! j))) (split_from d [] r ! j) = Inr v)"
    and bad: "split_from d [] r ! k \<noteq> []"
      "value_cast ext (fst (snd (cols ! k))) (split_from d [] r ! k) = Inl e"
  shows "decode_row ext fm d r cols = Inl e"
proof -
  define ps where "ps = split_from d [] r"
  have ps: "ps = take k ps @ ps ! k # drop (Suc k) ps"
    using k(1) by (simp add: ps_def id_take_nth_drop[symmetric])
  have en: "enumerate 0 ps = enumerate 0 (take k ps) @ (k, ps ! k) # enumerate (Suc k) (drop (Suc k) ps)"
  proof -
    have "enumerate 0 ps = enumerate 0 (take k ps @ ps ! k # drop (Suc k) ps)" using ps by simp
    also have "\<dots> = enumerate 0 (take k ps) @ enumerate (0 + length (take k ps)) (ps ! k # drop (Suc k) ps)"
      by (rule enumerate_append_eq)
    also have "length (take k ps) = k" using k(1) by (simp add: ps_def)
    finally show ?thesis by simp
  qed
  have 1: "0 + length (take k ps) \<le> length cols" using k by simp
  have 2: "\<forall>j < length (take k ps). take k ps ! j \<noteq> [] \<longrightarrow>
      (\<exists>v. value_cast ext (fst (snd (cols ! (0 + j)))) (take k ps ! j) = Inr v)"
    using before by (simp add: ps_def)
  from decode_points_ok[OF 1 2, of fm] obtain c1 where
    c1: "fold_exn (decode_point ext fm) (enumerate 0 (take k ps)) cols = Inr c1"
    and len: "length c1 = length cols"
    and ty: "\<forall>j < length cols. fst (snd (c1 ! j)) = fst (snd (cols ! j))"
    by blast
  have "decode_point ext fm (k, ps ! k) c1 = Inl e"
    using bad k(2) len ty by (simp add: decode_point_def ps_def)
  then have "fold_exn (decode_point ext fm) (enumerate 0 ps) cols = Inl e"
    using c1 by (simp add: en fold_exn_append)
  then show ?thesis using d by (simp add: decode_row_def split_def ps_def)
qed

lemma decode_rows_fails:
  assumes d: "d \<noteq> []"
    and pre: "\<forall>r' \<in> set pre. casts_ok ext (map (\<lambda>c. fst (snd c)) cols) (split_from d [] r')"
    and k: "k < length (split_from d [] r)" "k < length cols"
    and before: "\<forall>j < k. split_from d [] r ! j \<noteq> [] \<longrightarrow>
        (\<exists>v. value_cast ext (fst (snd (cols ! j))) (split_from d [] r ! j) = Inr v)"
    and bad: "split_from d [] r ! k \<noteq> []"
      "value_cast ext (fst (snd (cols ! k))) (split_from d [] r ! k) = Inl e"
  shows "fold_exn (decode_row ext fm d) (pre @ r # post) cols = Inl e"
proof -
  from decode_rows_ok[OF d pre, of fm] obtain c1 where
    c1: "fold_exn (decode_row ext fm d) pre cols = Inr c1"
    and g: "grows_by cols c1
       (\<lambda>j. concat (map (\<lambda>r. row_entry ext fm (fst (snd (cols ! j))) j (split_from d [] r)) pre))"
    by blast
  have len: "length c1 = length cols" using g by (simp add: grows_by_def)
  have ty: "\<And>j. j < length cols \<Longrightarrow> fst (snd (c1 ! j)) = fst (snd (cols ! j))"
    using g by (simp add: grows_by_def)
  have "decode_row ext fm d r c1 = Inl e"
  proof (rule decode_row_fails[OF d k(1)])
    show "k < length c1" using k(2) len by simp
    show "\<forall>j < k. split_from d [] r ! j \<noteq> [] \<longrightarrow>
        (\<exists>v. value_cast ext (fst (snd (c1 ! j))) (split_from d [] r ! j) = Inr v)"
      using before ty k(2) by simp
    show "split_from d [] r ! k \<noteq> []" by (rule bad(1))
    show "value_cast ext (fst (snd (c1 ! k))) (split_from d [] r ! k) = Inl e"
      using bad(2) ty[OF k(2)] by simp
  qed
  then show ?thesis using c1 by (simp add: fold_exn_append)
qed

text \<open>
  C5, as the code has it. \<^verbatim>\<open>logdata_dict\<close> does not catch what a cast raises: when the
  header is well formed, the rows before \<open>r\<close> decode, and field \<open>k\<close> of \<open>r\<close> is the
  first one of that row which its column's type does not accept, the result is the very
  exception \<open>e\<close> of the type's constructor on the text of the field. That exception is
  a function of the type and the text alone; the mnemonic of the column is not added.
\<close>

theorem logdata_dict_cast_failure:
  assumes "mnem_cast_map (logCurveInfo lg) = Inr cm"
    and "logData lg = ld # rest"
    and "delimiter_of lg \<noteq> []"
    and "\<forall>m \<in> set (split_from (delimiter_of lg) [] (mnemonicList ld)). map_of cm m \<noteq> None"
    and "data ld = pre @ r # post"
    and "\<forall>r' \<in> set pre.
               casts_ok ext (map (\<lambda>m. the (map_of cm m)) (split_from (delimiter_of lg) [] (mnemonicList ld)))
                 (split_from (delimiter_of lg) [] r')"
    and "k < length (split_from (delimiter_of lg) [] r)"
    and "k < length (split_from (delimiter_of lg) [] (mnemonicList ld))"
    and "\<forall>j < k. split_from (delimiter_of lg) [] r ! j \<noteq> [] \<longrightarrow>
        (\<exists>v. value_cast ext (the (map_of cm (split_from (delimiter_of lg) [] (mnemonicList ld) ! j)))
               (split_from (delimiter_of lg) [] r ! j) = Inr v)"
    and "split_from (delimiter_of lg) [] r ! k \<noteq> []"
    and "value_cast ext (the (map_of cm (split_from (delimiter_of lg) [] (mnemonicList ld) ! k)))
           (split_from (delimiter_of lg) [] r ! k) = Inl e"
  shows "logdata_dict ext lg fill_missing = Inl e"
proof -
  define dl where "dl = delimiter_of lg"
  define mnems where "mnems = split_from dl [] (mnemonicList ld)"
  define cols where "cols = map (\<lambda>m. (m, the (map_of cm m), [] :: pyval list)) mnems"
  have dl: "dl \<noteq> []" using assms(3) by (simp add: dl_def)
  have hdr: "map_exn (\<lambda>mnem. case getitem cm mnem of Inl e \<Rightarrow> Inl e | Inr t \<Rightarrow> Inr (mnem, t, [])) mnems = Inr cols"
    unfolding cols_def
  proof (rule map_exn_ok)
    fix m assume "m \<in> set mnems"
    then have "map_of cm m \<noteq> None" using assms(4) by (simp add: mnems_def dl_def)
    then show "(case getitem cm m of Inl e \<Rightarrow> Inl e | Inr t \<Rightarrow> Inr (m, t, [])) = Inr (m, the (map_of cm m), [])"
      by (auto simp: getitem_def)
  qed
  have tys: "map (\<lambda>c. fst (snd c)) cols = map (\<lambda>m. the (map_of cm m)) mnems"
    by (simp add: cols_def comp_def)
  have ty: "\<And>j. j < length mnems \<Longrightarrow> fst (snd (cols ! j)) = the (map_of cm (mnems ! j))"
    by (simp add: cols_def)
  have "fold_exn (decode_row ext fill_missing dl) (pre @ r # post) cols = Inl e"
  proof (rule decode_rows_fails[OF dl])
    show "\<forall>r' \<in> set pre. casts_ok ext (map (\<lambda>c. fst (snd c)) cols) (split_from dl [] r')"
      using assms(6) tys by (simp add: mnems_def dl_def)
    show "k < length (split_from dl [] r)" using assms(7) by (simp add: dl_def)
    show "k < length cols" using assms(8) by (simp add: cols_def mnems_def dl_def)
    show "\<forall>j < k. split_from dl [] r ! j \<noteq> [] \<longrightarrow>
        (\<exists>v. value_cast ext (fst (snd (cols ! j))) (split_from dl [] r ! j) = Inr v)"
      using assms(9) assms(8) ty by (simp add: mnems_def dl_def)
    show "split_from dl [] r ! k \<noteq> []" using assms(10) by (simp add: dl_def)
    show "value_cast ext (fst (snd (cols ! k))) (split_from dl [] r ! k) = Inl e"
      using assms(11) assms(8) ty by (simp add: mnems_def dl_def)
  qed
  then show ?thesis
    using assms(1,2,5) dl hdr
    by (simp add: logdata_dict_def split_def mnems_def[symmetric] dl_def[symmetric] del: fold_exn.simps map_exn.simps)
qed

theorem logdata_dict_cast_failure_witness:
  "logdata_dict sample_ext (example_log [''100.0,50.2'', ''100.1,abc'']) True =
     Inl (ValueError (''could not convert string to float: '' @ [CHR 0x27] @ ''abc'' @ [CHR 0x27]))"
proof -
  let ?lg = "example_log [''100.0,50.2'', ''100.1,abc'']"
  let ?ld = "\<lparr>mnemonicList = ''DEPT,GR'', data = [''100.0,50.2'', ''100.1,abc'']\<rparr>"
  let ?cm = "[(''DEPT'', Py_float), (''GR'', Py_float)]"
  have bad: "sample_float ''abc'' = Inl (ValueError (''could not convert string to float: '' @ [CHR 0x27] @ ''abc'' @ [CHR 0x27]))"
    by (simp add: sample_float_def digit_def)
  have 1: "mnem_cast_map (logCurveInfo ?lg) = Inr ?cm" by (rule example_cm)
  have 2: "logData ?lg = ?ld # []" by (simp add: example_log_def)
  have d: "delimiter_of ?lg = '',''" by (simp add: delimiter_of_def example_log_def)
  have 3: "delimiter_of ?lg \<noteq> []" by (simp add: d)
  have 4: "\<forall>m \<in> set (split_from (delimiter_of ?lg) [] (mnemonicList ?ld)). map_of ?cm m \<noteq> None"
    by (simp add: d)
  have 5: "data ?ld = [''100.0,50.2''] @ ''100.1,abc'' # []" by simp
  have 6: "\<forall>r' \<in> set [''100.0,50.2''].
             casts_ok sample_ext (map (\<lambda>m. the (map_of ?cm m)) (split_from (delimiter_of ?lg) [] (mnemonicList ?ld)))
               (split_from (delimiter_of ?lg) [] r')"
    by (simp add: d casts_ok_def value_cast_def sample_ext_def sample_float_examples nth_Cons' less_Suc_eq)
  have 7: "1 < length (split_from (delimiter_of ?lg) [] ''100.1,abc'')" by (simp add: d)
  have 8: "1 < length (split_from (delimiter_of ?lg) [] (mnemonicList ?ld))" by (simp add: d)
  have 9: "\<forall>j < 1. split_from (delimiter_of ?lg) [] ''100.1,abc'' ! j \<noteq> [] \<longrightarrow>
        (\<exists>v. value_cast sample_ext (the (map_of ?cm (split_from (delimiter_of ?lg) [] (mnemonicList ?ld) ! j)))
               (split_from (delimiter_of ?lg) [] ''100.1,abc'' ! j) = Inr v)"
    by (simp add: d value_cast_def sample_ext_def sample_float_examples)
  have 10: "split_from (delimiter_of ?lg) [] ''100.1,abc'' ! 1 \<noteq> []" by (simp add: d)
  have 11: "value_cast sample_ext (the (map_of ?cm (split_from (delimiter_of ?lg) [] (mnemonicList ?ld) ! 1)))
           (split_from (delimiter_of ?lg) [] ''100.1,abc'' ! 1) =
         Inl (ValueError (''could not convert string to float: '' @ [CHR 0x27] @ ''abc'' @ [CHR 0x27]))"
    by (simp add: d value_cast_def sample_ext_def bad)
  show ?thesis by (rule logdata_dict_cast_failure[OF 1 2 3 4 5 6 7 8 9 10 11])
qed

theorem logdata_dict_cast_failure_counterexample:
  "logdata_dict sample_ext (example_log_named ''GR'' [''100.0,abc'']) True =
     Inl (ValueError (''could not convert string to float: '' @ [CHR 0x27] @ ''abc'' @ [CHR 0x27])) \<and>
   logdata_dict sample_ext (example_log_named ''ROP'' [''100.0,abc'']) True =
     Inl (ValueError (''could not convert string to float: '' @ [CHR 0x27] @ ''abc'' @ [CHR 0x27]))"
  by (simp add: example_log_named_def logdata_dict_def mnem_cast_map_def getitem_def LOG_PRIM_TYPES_def split_def
     decode_row_def decode_point_def value_cast_def append_to_def sample_ext_def sample_float_def digit_def
     delimiter_of_def)

section \<open>Properties of the tree flattener\<close>



subsection \<open>Attributes of a child\<close>
















section \<open>Properties of the frame builder\<close>

lemma distinct_emit_attrs:
  "distinct (map fst fw) \<Longrightarrow> distinct (map fst (emit_attrs pa dl base_name am fw))"
  unfolding emit_attrs_def
  by (induction am arbitrary: fw) (auto simp: distinct_update)

lemma obj_dict_loop_distinct:
  "obj_dict_loop ia pa dl si st fw = Inr d \<Longrightarrow> distinct (map fst fw) \<Longrightarrow> distinct (map fst d)"
proof (induction ia pa dl si st fw rule: obj_dict_loop.induct)
  case (1 ia pa dl si fw)
  then show ?case by simp
next
  case (2 ia pa dl si base_name items obj_list fw)
  then show ?case by simp
next
  case (3 ia pa dl si base_name v obj_list fw)
  then show ?case by (auto simp: distinct_update split: if_splits)
next
  case (4 ia pa dl si base_name v obj_list fw)
  then show ?case by (auto simp: distinct_update)
next
  case (5 ia pa dl si base_name am tag v oc em lg obj_list fw)
  define fw1 where "fw1 = (if ia then emit_attrs pa dl base_name am fw else fw)"
  have dist: "distinct (map fst fw1)" using "5.prems"(2) by (simp add: fw1_def distinct_emit_attrs)
  show ?case
  proof (cases "tag \<noteq> CT_EMPTY \<and> tag \<noteq> CT_SIMPLE")
    case True
    with "5.prems"(1) obtain kids where k: "child_objs dl base_name oc em = Inr kids"
      and r: "obj_dict_loop ia pa dl si (rev kids @ obj_list) fw1 = Inr d"
      by (auto simp: Let_def fw1_def split: sum.splits)
    from "5.IH"(1)[OF refl True k] r dist show ?thesis by (simp add: fw1_def)
  next
    case False
    with "5.prems"(1) obtain x where x: "v = Inr x"
      and r: "obj_dict_loop ia pa dl si obj_list (AList.update base_name x fw1) = Inr d"
      by (auto simp: Let_def fw1_def split: sum.splits)
    have "distinct (map fst (AList.update base_name x fw1))" using dist by (rule distinct_update)
    with "5.IH"(2)[OF refl False x] r show ?thesis by (simp add: fw1_def)
  qed
qed

lemma obj_dict_distinct: "obj_dict obj ia pa dl si = Inr d \<Longrightarrow> distinct (map fst d)"
  unfolding obj_dict_def by (drule obj_dict_loop_distinct) simp_all

lemma map_exn_Inr_all:
  "map_exn f xs = Inr ys \<Longrightarrow> length ys = length xs \<and> (\<forall>i < length xs. f (xs ! i) = Inr (ys ! i))"
proof (induction xs arbitrary: ys)
  case Nil
  then show ?case by simp
next
  case (Cons x xs)
  then show ?case by (auto split: sum.splits simp: nth_Cons')
qed

lemma fold_insert_new_distinct:
  "distinct ks \<Longrightarrow>
   fold (\<lambda>n keys. if n \<in> set keys then keys else keys @ [n]) ks acc = acc @ filter (\<lambda>k. k \<notin> set acc) ks"
proof (induction ks arbitrary: acc)
  case Nil
  show ?case by simp
next
  case (Cons k ks)
  show ?case
  proof (cases "k \<in> set acc")
    case True
    with Cons show ?thesis by simp
  next
    case False
    have "filter (\<lambda>x. x \<notin> set (acc @ [k])) ks = filter (\<lambda>x. x \<notin> set acc) ks"
      using Cons.prems by (auto intro: filter_cong)
    with Cons False show ?thesis by simp
  qed
qed

lemma fold_insert_new_append:
  "fold (\<lambda>n keys. if n \<in> set keys then keys else keys @ [n]) (xs @ ys) acc =
   fold (\<lambda>n keys. if n \<in> set keys then keys else keys @ [n]) ys
     (fold (\<lambda>n keys. if n \<in> set keys then keys else keys @ [n]) xs acc)"
  by simp

lemma fold_extend_keys:
  "\<forall>fw \<in> set frame_list. distinct (map fst fw) \<Longrightarrow>
   fold extend_keys frame_list acc =
   fold (\<lambda>n keys. if n \<in> set keys then keys else keys @ [n]) (concat (map (map fst) frame_list)) acc"
proof (induction frame_list arbitrary: acc)
  case Nil
  show ?case by simp
next
  case (Cons fw frame_list)
  have "extend_keys fw acc = fold (\<lambda>n keys. if n \<in> set keys then keys else keys @ [n]) (map fst fw) acc"
    using Cons.prems by (simp add: extend_keys_def fold_insert_new_distinct)
  with Cons show ?case by simp
qed

lemma existing_keys_fromkeys:
  "\<forall>fw \<in> set frame_list. distinct (map fst fw) \<Longrightarrow>
   fold extend_keys frame_list [] = fromkeys (concat (map (map fst) frame_list))"
  by (simp add: fold_extend_keys fromkeys_def)

lemma fold_insert_new_set:
  "set (fold (\<lambda>n keys. if n \<in> set keys then keys else keys @ [n]) ks acc) = set acc \<union> set ks"
  by (induction ks arbitrary: acc) auto

lemma fold_insert_new_distinct_result:
  "distinct acc \<Longrightarrow> distinct (fold (\<lambda>n keys. if n \<in> set keys then keys else keys @ [n]) ks acc)"
  by (induction ks arbitrary: acc) auto

lemma set_fromkeys [simp]: "set (fromkeys ks) = set ks"
  by (simp add: fromkeys_def fold_insert_new_set)

lemma distinct_fromkeys [simp]: "distinct (fromkeys ks)"
  by (simp add: fromkeys_def fold_insert_new_distinct_result)

lemma fold_update_distinct_keys:
  "distinct (map fst acc @ ks) \<Longrightarrow>
   fold (\<lambda>key d. AList.update key (f key) d) ks acc = acc @ map (\<lambda>key. (key, f key)) ks"
proof (induction ks arbitrary: acc)
  case Nil
  show ?case by simp
next
  case (Cons k ks)
  have "k \<notin> fst ` set acc" using Cons.prems by auto
  then have u: "AList.update k (f k) acc = acc @ [(k, f k)]" by (rule update_fresh)
  have "distinct (map fst (acc @ [(k, f k)]) @ ks)" using Cons.prems by auto
  from Cons.IH[OF this] show ?case using u by simp
qed

lemma alist_eq_by_keys:
  assumes "distinct (map fst xs)" and "map fst xs = ks" and "\<forall>k \<in> set ks. map_of xs k = Some (f k)"
  shows "xs = map (\<lambda>k. (k, f k)) ks"
proof (rule nth_equalityI)
  show "length xs = length (map (\<lambda>k. (k, f k)) ks)" using assms(2) by (auto dest: arg_cong[where f = length])
next
  fix i assume i: "i < length xs"
  then have k: "fst (xs ! i) = ks ! i" using assms(2) by (metis nth_map)
  have "xs ! i \<in> set xs" using i by simp
  then have "map_of xs (fst (xs ! i)) = Some (snd (xs ! i))" using assms(1) by simp
  moreover have "ks ! i \<in> set ks" using i assms(2) by (metis length_map nth_mem)
  ultimately have "snd (xs ! i) = f (ks ! i)" using assms(3) k by auto
  then show "xs ! i = map (\<lambda>k. (k, f k)) ks ! i"
    using i k assms(2) by (metis length_map nth_map prod.collapse)
qed

lemma fill_keys_map_fst:
  "map fst (fold (\<lambda>key d. case map_of d key of
                      None \<Rightarrow> d
                    | Some col \<Rightarrow>
                        (case map_of fw key of
                           None \<Rightarrow> d
                         | Some v \<Rightarrow> AList.update key (col[idx := v]) d)) ks d) = map fst d"
proof (induction ks arbitrary: d)
  case Nil
  show ?case by simp
next
  case (Cons k ks)
  show ?case
  proof (cases "map_of d k")
    case None
    then show ?thesis by (simp add: Cons.IH)
  next
    case (Some col)
    then have "k \<in> set (map fst d)" by (auto dest: map_of_SomeD intro: rev_image_eqI)
    then show ?thesis using Some by (simp add: Cons.IH update_keys split: option.splits)
  qed
qed

lemma fill_keys_map_of:
  "map_of (fold (\<lambda>key d. case map_of d key of
                      None \<Rightarrow> d
                    | Some col \<Rightarrow>
                        (case map_of fw key of
                           None \<Rightarrow> d
                         | Some v \<Rightarrow> AList.update key (col[idx := v]) d)) ks d) k =
   (case map_of d k of
      None \<Rightarrow> None
    | Some col \<Rightarrow> Some (if k \<in> set ks then (case map_of fw k of None \<Rightarrow> col | Some v \<Rightarrow> col[idx := v]) else col))"
proof (induction ks arbitrary: d)
  case Nil
  show ?case by (simp split: option.splits)
next
  case (Cons k0 ks)
  show ?case
    by (auto simp: Cons.IH update_conv' split: option.splits)
qed

lemma fill_member_map_fst: "map fst (fill_member ifw d) = map fst d"
  unfolding fill_member_def by (rule fill_keys_map_fst)

lemma fill_member_map_of:
  "map_of (fill_member (idx, fw) d) k =
   (case map_of d k of
      None \<Rightarrow> None
    | Some col \<Rightarrow> Some (case map_of fw k of None \<Rightarrow> col | Some v \<Rightarrow> col[idx := v]))"
proof -
  have "k \<notin> set (map fst fw) \<Longrightarrow> map_of fw k = None" by (simp add: map_of_eq_None_iff)
  then show ?thesis
    unfolding fill_member_def by (auto simp: fill_keys_map_of split: option.splits)
qed

lemma fold_fill_member_map_fst: "map fst (fold fill_member ifws d) = map fst d"
  by (induction ifws arbitrary: d) (simp_all add: fill_member_map_fst)

lemma fold_fill_member_map_of:
  "map_of (fold fill_member (enumerate i frame_list) d) k =
   (case map_of d k of
      None \<Rightarrow> None
    | Some col \<Rightarrow>
        Some (fold (\<lambda>ifw c. case map_of (snd ifw) k of None \<Rightarrow> c | Some v \<Rightarrow> c[fst ifw := v])
                (enumerate i frame_list) col))"
proof (induction frame_list arbitrary: i d)
  case Nil
  show ?case by (simp split: option.splits)
next
  case (Cons fw frame_list)
  show ?case by (simp add: Cons.IH fill_member_map_of split: option.splits)
qed

lemma fold_column:
  assumes "length col = i + length frame_list"
    and "\<forall>j. i \<le> j \<and> j < length col \<longrightarrow> col ! j = PyNone"
  shows "fold (\<lambda>ifw c. case map_of (snd ifw) k of None \<Rightarrow> c | Some v \<Rightarrow> c[fst ifw := v])
           (enumerate i frame_list) col =
         take i col @ map (\<lambda>fw. case map_of fw k of None \<Rightarrow> PyNone | Some v \<Rightarrow> v) frame_list"
  using assms
proof (induction frame_list arbitrary: i col)
  case Nil
  then show ?case by simp
next
  case (Cons fw frame_list)
  define col1 where "col1 = (case map_of fw k of None \<Rightarrow> col | Some v \<Rightarrow> col[i := v])"
  have len: "length col1 = Suc i + length frame_list" using Cons.prems(1) by (simp add: col1_def split: option.splits)
  have none: "\<forall>j. Suc i \<le> j \<and> j < length col1 \<longrightarrow> col1 ! j = PyNone"
    using Cons.prems by (auto simp: col1_def split: option.splits)
  have i: "i < length col" using Cons.prems(1) by simp
  have "take (Suc i) col1 = take i col @ [case map_of fw k of None \<Rightarrow> PyNone | Some v \<Rightarrow> v]"
  proof (cases "map_of fw k")
    case None
    then have "col1 = col" by (simp add: col1_def)
    moreover have "col ! i = PyNone" using Cons.prems(2) i by simp
    ultimately show ?thesis using None i by (simp add: take_Suc_conv_app_nth)
  next
    case (Some v)
    then have "col1 = col[i := v]" by (simp add: col1_def)
    then show ?thesis using Some i by (simp add: take_Suc_conv_app_nth)
  qed
  moreover have "fold (\<lambda>ifw c. case map_of (snd ifw) k of None \<Rightarrow> c | Some v \<Rightarrow> c[fst ifw := v])
           (enumerate i (fw # frame_list)) col =
        fold (\<lambda>ifw c. case map_of (snd ifw) k of None \<Rightarrow> c | Some v \<Rightarrow> c[fst ifw := v])
           (enumerate (Suc i) frame_list) col1"
    by (simp add: col1_def split: option.splits)
  ultimately show ?case using Cons.IH[OF len none] by simp
qed

lemma map_exn_obj_dict_distinct:
  assumes "map_exn (\<lambda>obj. obj_dict obj ia pa dl si) plural_obj = Inr frame_list"
  shows "\<forall>fw \<in> set frame_list. distinct (map fst fw)"
proof
  fix fw assume "fw \<in> set frame_list"
  then obtain i where i: "i < length frame_list" and fw: "frame_list ! i = fw"
    by (auto simp: in_set_conv_nth)
  from map_exn_Inr_all[OF assms] i fw have "obj_dict (plural_obj ! i) ia pa dl si = Inr fw" by auto
  then show "distinct (map fst fw)" by (rule obj_dict_distinct)
qed

lemma fill_frame:
  assumes dist: "distinct keys" and n: "n = length frame_list"
  shows "fold fill_member (enumerate 0 frame_list)
           (fold (\<lambda>key d. AList.update key (replicate n PyNone) d) keys []) =
         map (\<lambda>key. (key, map (\<lambda>fw. case map_of fw key of None \<Rightarrow> PyNone | Some v \<Rightarrow> v) frame_list)) keys"
proof -
  define frame0 where "frame0 = map (\<lambda>key. (key, replicate n PyNone)) keys"
  have f0: "fold (\<lambda>key d. AList.update key (replicate n PyNone) d) keys [] = frame0"
    using fold_update_distinct_keys[of "[]" keys "\<lambda>key. replicate n PyNone"] dist by (simp add: frame0_def)
  have k0: "map fst frame0 = keys" by (simp add: frame0_def comp_def)
  have m0: "\<And>k. k \<in> set keys \<Longrightarrow> map_of frame0 k = Some (replicate n PyNone)"
  proof -
    fix k assume "k \<in> set keys"
    then have "(k, replicate n PyNone) \<in> set frame0" by (auto simp: frame0_def)
    moreover have "distinct (map fst frame0)" using k0 dist by simp
    ultimately show "map_of frame0 k = Some (replicate n PyNone)" by simp
  qed
  define final where "final = fold fill_member (enumerate 0 frame_list) frame0"
  have kf: "map fst final = keys" by (simp add: final_def fold_fill_member_map_fst k0)
  have df: "distinct (map fst final)" using kf dist by simp
  have mf: "\<forall>k \<in> set keys. map_of final k =
      Some (map (\<lambda>fw. case map_of fw k of None \<Rightarrow> PyNone | Some v \<Rightarrow> v) frame_list)"
  proof
    fix k assume k: "k \<in> set keys"
    have "fold (\<lambda>ifw c. case map_of (snd ifw) k of None \<Rightarrow> c | Some v \<Rightarrow> c[fst ifw := v])
           (enumerate 0 frame_list) (replicate n PyNone) =
         take 0 (replicate n PyNone) @ map (\<lambda>fw. case map_of fw k of None \<Rightarrow> PyNone | Some v \<Rightarrow> v) frame_list"
      by (rule fold_column) (simp_all add: n)
    then show "map_of final k = Some (map (\<lambda>fw. case map_of fw k of None \<Rightarrow> PyNone | Some v \<Rightarrow> v) frame_list)"
      by (simp add: final_def fold_fill_member_map_of m0[OF k])
  qed
  from alist_eq_by_keys[OF df kf mf] show ?thesis by (simp add: f0 final_def)
qed

lemma plural_dict_fill:
  assumes "map_exn (\<lambda>obj. obj_dict obj ia pa dl si) plural_obj = Inr frame_list"
  shows "plural_dict plural_obj ia True pa dl si =
     Inr (map (\<lambda>key. (key, map (\<lambda>fw. case map_of fw key of None \<Rightarrow> PyNone | Some v \<Rightarrow> v) frame_list))
            (fromkeys (concat (map (map fst) frame_list))))"
proof -
  have d: "\<forall>fw \<in> set frame_list. distinct (map fst fw)"
    using assms by (rule map_exn_obj_dict_distinct)
  have keys: "fold extend_keys frame_list [] = fromkeys (concat (map (map fst) frame_list))"
    using d by (rule existing_keys_fromkeys)
  have len: "length plural_obj = length frame_list" using map_exn_Inr_all[OF assms] by simp
  show ?thesis
    using assms by (simp add: plural_dict_def keys fill_frame[OF distinct_fromkeys len])
qed

text \<open>
  C1. When every member of the collection is flattened by \<^verbatim>\<open>obj_dict\<close>, \<^verbatim>\<open>plural_dict\<close>
  with \<open>fill_missing\<close> returns the frame whose keys are the flattened keys of the
  members in the order in which they are first seen, each with a list that has one entry
  per member: the member's value for the key, or \<^verbatim>\<open>None\<close> when the member lacks the key.
\<close>

theorem plural_dict_fill_missing:
  assumes "map_exn (\<lambda>obj. obj_dict obj include_attr prefix_attr delimiter start_idx) plural_obj = Inr frame_list"
  shows "plural_dict plural_obj include_attr True prefix_attr delimiter start_idx =
           Inr (map (\<lambda>key. (key, map (\<lambda>fw. case map_of fw key of None \<Rightarrow> PyNone | Some v \<Rightarrow> v) frame_list))
                  (fromkeys (concat (map (map fst) frame_list)))) \<and>
         length frame_list = length plural_obj \<and>
         (\<forall>i < length plural_obj.
            obj_dict (plural_obj ! i) include_attr prefix_attr delimiter start_idx = Inr (frame_list ! i))"
  using plural_dict_fill[OF assms] map_exn_Inr_all[OF assms] by simp

theorem plural_dict_fill_missing_witness:
  "plural_dict [example_station [''a'', ''b''], example_station [''a'', ''c'']] False True [] ''.'' 0 =
     Inr [(''b'', [PyStr ''value of b'', PyNone]),
          (''a'', [PyStr ''value of a'', PyStr ''value of a'']),
          (''c'', [PyNone, PyStr ''value of c''])]"
proof -
  have fl: "map_exn (\<lambda>obj. obj_dict obj False [] ''.'' 0) [example_station [''a'', ''b''], example_station [''a'', ''c'']] =
      Inr [[(''b'', PyStr ''value of b''), (''a'', PyStr ''value of a'')],
           [(''c'', PyStr ''value of c''), (''a'', PyStr ''value of a'')]]"
    by (simp add: example_station_def obj_dict_def join_path_def)
  show ?thesis
    using plural_dict_fill_missing[OF fl] by (simp add: fromkeys_def)
qed

section \<open>Repeated occurrences of an element\<close>




























section \<open>Claims about the converter to plain data\<close>

lemma map_exn_map: "map_exn f (map g xs) = map_exn (\<lambda>x. f (g x)) xs"
  by (induction xs) (simp_all split: sum.splits)

lemma map_exn_map_result:
  "map_exn (\<lambda>x. case f x of Inl e \<Rightarrow> Inl e | Inr y \<Rightarrow> Inr (g y)) xs =
   (case map_exn f xs of Inl e \<Rightarrow> Inl e | Inr ys \<Rightarrow> Inr (map g ys))"
  by (induction xs) (auto split: sum.splits)

lemma example_log_decoded:
  "logdata_dict sample_ext (example_log [''100.0,50.2'', ''100.1,'']) True =
     Inr [(''DEPT'', [PyFloat 100, PyFloat (1001 / 10)]), (''GR'', [PyFloat (251 / 5), PyNone])]"
  by (simp add: example_log_def logdata_dict_def mnem_cast_map_def getitem_def LOG_PRIM_TYPES_def split_def
     decode_row_def decode_point_def value_cast_def append_to_def frame_of_def sample_ext_def sample_float_examples
     delimiter_of_def)

lemma as_obj_log_Some: "as_obj_log x = Some lg \<Longrightarrow> \<exists>am tag v oc em. x = ComplexType am tag v oc em (Some lg)"
  by (cases x) auto

lemma any_to_plain_log_node:
  "as_obj_log x = Some lg \<Longrightarrow>
   any_to_plain ext ia pa dl tr x = (case logdata_dict ext lg True of Inl e \<Rightarrow> Inl e | Inr frame \<Rightarrow> Inr (plain_of_frame frame))"
  by (auto dest: as_obj_log_Some)

lemma map_exn_log_nodes:
  "map as_obj_log items = map Some lgs \<Longrightarrow>
   map_exn (any_to_plain ext ia pa dl tr) items =
     (case map_exn (\<lambda>lg. logdata_dict ext lg True) lgs of Inl e \<Rightarrow> Inl e | Inr frames \<Rightarrow> Inr (map plain_of_frame frames))"
proof (induction items arbitrary: lgs)
  case Nil
  then show ?case by simp
next
  case (Cons x items)
  then obtain lg lgs' where l: "lgs = lg # lgs'" and x: "as_obj_log x = Some lg" and r: "map as_obj_log items = map Some lgs'"
    by (cases lgs) auto
  show ?case unfolding l using Cons.IH[OF r] any_to_plain_log_node[OF x, of ext ia pa dl tr]
    by (simp split: sum.splits)
qed

lemma update_keys_frame:
  "update_keys (plain_of_frame frame) ks = Inr (fold (\<lambda>k ks. if k \<in> set ks then ks else ks @ [k]) (map fst frame) ks)"
  by (simp add: plain_of_frame_def comp_def)

lemma fold_exn_log_nodes:
  "map as_obj_log items = map Some lgs \<Longrightarrow>
   fold_exn (\<lambda>obj state.
       case any_to_plain ext ia pa dl tr obj of
         Inl e \<Rightarrow> Inl e
       | Inr as_dict \<Rightarrow>
           (case update_keys as_dict (snd state) of
              Inl e \<Rightarrow> Inl e
            | Inr all_keys \<Rightarrow> Inr (fst state @ [as_dict], all_keys)))
     items (fl, ks) =
     (case map_exn (\<lambda>lg. logdata_dict ext lg True) lgs of
        Inl e \<Rightarrow> Inl e
      | Inr frames \<Rightarrow>
          Inr (fl @ map plain_of_frame frames,
               fold (\<lambda>frame keys. fold (\<lambda>k ks. if k \<in> set ks then ks else ks @ [k]) (map fst frame) keys) frames ks))"
proof (induction items arbitrary: lgs fl ks)
  case Nil
  then show ?case by simp
next
  case (Cons x items)
  then obtain lg lgs' where l: "lgs = lg # lgs'" and x: "as_obj_log x = Some lg" and r: "map as_obj_log items = map Some lgs'"
    by (cases lgs) auto
  show ?case unfolding l using Cons.IH[OF r] any_to_plain_log_node[OF x, of ext ia pa dl tr]
    by (simp add: update_keys_frame split: sum.splits)
qed

lemma map_exn_Inr: "map_exn (\<lambda>x. Inr (g x)) xs = Inr (map g xs)"
  by (induction xs) simp_all

lemma get_or_none_frame:
  "get_or_none (plain_of_frame frame) key =
     Inr (case map_of frame key of None \<Rightarrow> Leaf PyNone | Some column \<Rightarrow> PlainList (map Leaf column))"
proof -
  have "map_of (map (\<lambda>kv. (fst kv, PlainList (map Leaf (snd kv)))) frame) key =
        map_option (\<lambda>column. PlainList (map Leaf column)) (map_of frame key)"
    by (induction frame) auto
  then show ?thesis by (simp add: plain_of_frame_def split: option.splits)
qed

lemma dict_of_lists_frames:
  "dict_of_lists (map plain_of_frame frames) keys =
     Inr (PlainDict (map (\<lambda>key. (key, PlainList (map (\<lambda>frame. case map_of frame key of
                                                    None \<Rightarrow> Leaf PyNone
                                                  | Some column \<Rightarrow> PlainList (map Leaf column)) frames))) keys))"
  by (simp add: dict_of_lists_def map_exn_map get_or_none_frame map_exn_Inr)

lemma any_to_plain_logs:
  assumes "map as_obj_log items = map Some lgs"
  shows "any_to_plain ext ia pa dl tr (PluralBinding items) =
     (case map_exn (\<lambda>lg. logdata_dict ext lg True) lgs of
        Inl e \<Rightarrow> Inl e
      | Inr frames \<Rightarrow> Inr (if tr then transposed_frames frames else PlainList (map plain_of_frame frames)))"
proof (cases tr)
  case True
  show ?thesis using True fold_exn_log_nodes[OF assms, of ext ia pa dl tr "[]" "[]"]
    by (simp add: dict_of_lists_frames transposed_frames_def split: sum.splits)
next
  case False
  show ?thesis using False map_exn_log_nodes[OF assms, of ext ia pa dl tr]
    by (simp split: sum.splits)
qed

lemma map_exn_append:
  "map_exn f (xs @ ys) =
     (case map_exn f xs of
        Inl e \<Rightarrow> Inl e
      | Inr a \<Rightarrow> (case map_exn f ys of Inl e \<Rightarrow> Inl e | Inr b \<Rightarrow> Inr (a @ b)))"
  by (induction xs) (auto split: sum.splits)

lemma map_of_fold_update_other:
  "k \<notin> fst ` set ws \<Longrightarrow> map_of (fold (\<lambda>kv d. AList.update (fst kv) (snd kv) d) ws d) k = map_of d k"
  by (induction ws arbitrary: d) (auto simp: update_conv')

lemma keys_child_entries:
  "fst kv = m \<or> (ia \<and> (\<exists>a. AttributeMap next_obj = Inr a \<and> fst kv \<in> (\<lambda>attr_use. m @ dl @ pa @ fst attr_use) ` set a))"
  if "kv \<in> set (child_entries ia pa dl m next_obj p)"
proof (cases "ia")
  case False
  with that show ?thesis by (simp add: child_entries_def)
next
  case True
  show ?thesis
  proof (cases "AttributeMap next_obj")
    case (Inl e)
    with True that show ?thesis by (simp add: child_entries_def)
  next
    case (Inr a)
    with True that have "kv \<in> (\<lambda>attr_use. (m @ dl @ pa @ fst attr_use, Leaf (snd attr_use))) ` set a \<or> kv = (m, p)"
      by (auto simp: child_entries_def)
    then show ?thesis
    proof
      assume "kv \<in> (\<lambda>attr_use. (m @ dl @ pa @ fst attr_use, Leaf (snd attr_use))) ` set a"
      then obtain attr_use where "attr_use \<in> set a" and "kv = (m @ dl @ pa @ fst attr_use, Leaf (snd attr_use))"
        by blast
      then have "fst kv \<in> (\<lambda>attr_use. m @ dl @ pa @ fst attr_use) ` set a" by force
      with True Inr show ?thesis by blast
    next
      assume "kv = (m, p)"
      then show ?thesis by simp
    qed
  qed
qed

lemma sibling_attr_keys_member:
  assumes "m \<in> set names" and "m \<noteq> n" and "map_of em m = Some next_obj" and "AttributeMap next_obj = Inr a"
    and "attr_use \<in> set a"
  shows "m @ dl @ pa @ fst attr_use \<in> set (sibling_attr_keys True pa dl names em n)"
  using assms by (force simp: sibling_attr_keys_def)

lemma writes_other_keys:
  assumes "map_exn (\<lambda>next_path.
                 case map_of em next_path of
                   None \<Rightarrow> Inl AttributeError
                 | Some next_obj \<Rightarrow>
                     (case any_to_plain ext ia pa dl tr next_obj of
                        Inl e \<Rightarrow> Inl e
                      | Inr p \<Rightarrow> Inr (child_entries ia pa dl next_path next_obj p))) ys = Inr wy"
    and "n \<notin> set ys" and "set ys \<subseteq> set names"
    and "n \<notin> set (sibling_attr_keys ia pa dl names em n)"
  shows "n \<notin> fst ` set (concat wy)"
  using assms(1-3)
proof (induction ys arbitrary: wy)
  case Nil
  then show ?case by simp
next
  case (Cons m ys)
  from Cons.prems(1) obtain next_obj p wy' where o: "map_of em m = Some next_obj"
    and wy: "wy = child_entries ia pa dl m next_obj p # wy'"
    and rest: "map_exn (\<lambda>next_path.
                 case map_of em next_path of
                   None \<Rightarrow> Inl AttributeError
                 | Some next_obj \<Rightarrow>
                     (case any_to_plain ext ia pa dl tr next_obj of
                        Inl e \<Rightarrow> Inl e
                      | Inr p \<Rightarrow> Inr (child_entries ia pa dl next_path next_obj p))) ys = Inr wy'"
    by (auto split: option.splits sum.splits)
  have m: "m \<noteq> n" "m \<in> set names" using Cons.prems(2,3) by auto
  have "n \<notin> fst ` set (child_entries ia pa dl m next_obj p)"
  proof
    assume "n \<in> fst ` set (child_entries ia pa dl m next_obj p)"
    then obtain kv where kv: "kv \<in> set (child_entries ia pa dl m next_obj p)" and n: "fst kv = n" by auto
    from keys_child_entries[OF kv] m(1) n obtain a attr_use where ia and "AttributeMap next_obj = Inr a"
      and "attr_use \<in> set a" and "n = m @ dl @ pa @ fst attr_use" by auto
    with sibling_attr_keys_member[OF m(2) m(1) o, of a attr_use dl pa] assms(4) show False by simp
  qed
  moreover have "n \<notin> fst ` set (concat wy')" using Cons.IH[OF rest] Cons.prems(2,3) by simp
  ultimately show ?case by (auto simp: wy)
qed

lemma any_to_plain_child:
  assumes "tag \<noteq> CT_EMPTY" and "tag \<noteq> CT_SIMPLE" and "element_ids oc = Inr names" and "n \<in> set names"
    and "map_of em n = Some child"
    and "n \<notin> set (sibling_attr_keys ia pa dl names em n)"
    and "any_to_plain ext ia pa dl tr (ComplexType am tag v oc em None) = Inr r"
  shows "\<exists>d p. r = PlainDict d \<and> any_to_plain ext ia pa dl tr child = Inr p \<and> map_of d n = Some p"
proof -
  define f where "f = (\<lambda>next_path.
                 case map_of em next_path of
                   None \<Rightarrow> Inl AttributeError
                 | Some next_obj \<Rightarrow>
                     (case any_to_plain ext ia pa dl tr next_obj of
                        Inl e \<Rightarrow> Inl e
                      | Inr p \<Rightarrow> Inr (child_entries ia pa dl next_path next_obj p)))"
  define a0 where "a0 = (if ia then fold (\<lambda>attr_use d. AList.update (pa @ fst attr_use) (Leaf (snd attr_use)) d) am [] else [])"
  from assms(1,2,3,7) obtain writes where w: "map_exn f (fromkeys names) = Inr writes"
    and r: "r = PlainDict (fold (\<lambda>kv d. AList.update (fst kv) (snd kv) d) (concat writes) a0)"
    by (auto simp: f_def a0_def split: sum.splits)
  have "n \<in> set (fromkeys names)" using assms(4) by simp
  from split_list[OF this] obtain xs ys where split: "fromkeys names = xs @ n # ys" by blast
  have "distinct (fromkeys names)" by simp
  then have nys: "n \<notin> set ys" unfolding split by simp
  have sub: "set ys \<subseteq> set names"
  proof -
    have "set ys \<subseteq> set (fromkeys names)" unfolding split by auto
    then show ?thesis by simp
  qed
  from w obtain wx w1 wy where wx: "map_exn f xs = Inr wx" and w1: "f n = Inr w1"
    and wy: "map_exn f ys = Inr wy" and writes: "writes = wx @ w1 # wy"
    unfolding split by (auto simp: map_exn_append split: sum.splits)
  from w1 assms(5) obtain p where p: "any_to_plain ext ia pa dl tr child = Inr p"
    and w1_eq: "w1 = child_entries ia pa dl n child p"
    by (auto simp: f_def split: sum.splits)
  obtain attrs where ce: "child_entries ia pa dl n child p = attrs @ [(n, p)]"
    by (simp add: child_entries_def)
  have other: "n \<notin> fst ` set (concat wy)"
    using wy nys sub assms(6) unfolding f_def by (rule writes_other_keys)
  have "concat writes = (concat wx @ attrs) @ (n, p) # concat wy"
    by (simp add: writes w1_eq ce)
  then have "fold (\<lambda>kv d. AList.update (fst kv) (snd kv) d) (concat writes) a0 =
      fold (\<lambda>kv d. AList.update (fst kv) (snd kv) d) (concat wy)
        (AList.update n p (fold (\<lambda>kv d. AList.update (fst kv) (snd kv) d) (concat wx @ attrs) a0))"
    by simp
  then have "map_of (fold (\<lambda>kv d. AList.update (fst kv) (snd kv) d) (concat writes) a0) n = Some p"
    using map_of_fold_update_other[OF other] by (simp add: update_conv')
  with r p show ?thesis by blast
qed

lemma example_log_named_decoded:
  "logdata_dict sample_ext (example_log_named ''ROP'' [''100.0,'']) True =
     Inr [(''DEPT'', [PyFloat 100]), (''ROP'', [PyNone])]"
  by (simp add: example_log_named_def logdata_dict_def mnem_cast_map_def getitem_def LOG_PRIM_TYPES_def split_def
     decode_row_def decode_point_def value_cast_def append_to_def frame_of_def sample_ext_def sample_float_examples
     delimiter_of_def)

text \<open>
  C9. Wherever \<^verbatim>\<open>to_plain\<close> meets an object of class \<^verbatim>\<open>obj_log\<close>, it converts it with
  \<^verbatim>\<open>logdata_dict\<close> and \<open>fill_missing = True\<close>, whatever \<open>include_attr\<close>, \<open>prefix_attr\<close>,
  \<open>delimiter\<close> and \<open>transposed\<close> are:
  \<^item> a log at the top level gives its frame, or the exception of \<^verbatim>\<open>logdata_dict\<close>;
  \<^item> a collection of logs gives the list of their frames, and with \<open>transposed\<close> those
    frames by mnemonic (\<open>transposed_frames\<close>), or the exception of the first log that
    fails;
  \<^item> when a structured node that has the element \<open>n\<close> is converted, and no attribute of
    another child is written under the key \<open>n\<close>, the result has under \<open>n\<close> the frame of
    the log that is the value of \<open>n\<close>, and the frames of the collection of logs, as
    above, when the value of \<open>n\<close> is one: the shape \<^verbatim>\<open>logs\<close>, plural \<^verbatim>\<open>log\<close>,
    \<^verbatim>\<open>obj_log\<close> of the library.
\<close>

theorem to_plain_log:
  "to_plain ext (ComplexType am tag v oc em (Some lg)) include_attr prefix_attr delimiter transposed =
     (case logdata_dict ext lg True of Inl e \<Rightarrow> Inl e | Inr frame \<Rightarrow> Inr (plain_of_frame frame)) \<and>
   (map as_obj_log items = map Some lgs \<longrightarrow>
      to_plain ext (PluralBinding items) include_attr prefix_attr delimiter transposed =
        (case map_exn (\<lambda>lg. logdata_dict ext lg True) lgs of
           Inl e \<Rightarrow> Inl e
         | Inr frames \<Rightarrow>
             Inr (if transposed then transposed_frames frames else PlainList (map plain_of_frame frames)))) \<and>
   (tag' \<noteq> CT_EMPTY \<and> tag' \<noteq> CT_SIMPLE \<and> element_ids oc' = Inr names \<and> n \<in> set names \<and>
    n \<notin> set (sibling_attr_keys include_attr prefix_attr delimiter names em' n) \<and>
    to_plain ext (ComplexType am' tag' v' oc' em' None) include_attr prefix_attr delimiter transposed = Inr r \<longrightarrow>
      (map_of em' n = Some (ComplexType am tag v oc em (Some lg)) \<longrightarrow>
         (\<exists>frame d. logdata_dict ext lg True = Inr frame \<and> r = PlainDict d \<and>
            map_of d n = Some (plain_of_frame frame))) \<and>
      (map_of em' n = Some (PluralBinding items) \<and> map as_obj_log items = map Some lgs \<longrightarrow>
         (\<exists>frames d. map_exn (\<lambda>lg. logdata_dict ext lg True) lgs = Inr frames \<and> r = PlainDict d \<and>
            map_of d n =
              Some (if transposed then transposed_frames frames else PlainList (map plain_of_frame frames)))))"
proof (intro conjI impI)
  show "to_plain ext (ComplexType am tag v oc em (Some lg)) include_attr prefix_attr delimiter transposed =
     (case logdata_dict ext lg True of Inl e \<Rightarrow> Inl e | Inr frame \<Rightarrow> Inr (plain_of_frame frame))"
    by (simp add: to_plain_def)
next
  assume "map as_obj_log items = map Some lgs"
  then show "to_plain ext (PluralBinding items) include_attr prefix_attr delimiter transposed =
        (case map_exn (\<lambda>lg. logdata_dict ext lg True) lgs of
           Inl e \<Rightarrow> Inl e
         | Inr frames \<Rightarrow>
             Inr (if transposed then transposed_frames frames else PlainList (map plain_of_frame frames)))"
    unfolding to_plain_def by (rule any_to_plain_logs)
next
  assume a: "tag' \<noteq> CT_EMPTY \<and> tag' \<noteq> CT_SIMPLE \<and> element_ids oc' = Inr names \<and> n \<in> set names \<and>
    n \<notin> set (sibling_attr_keys include_attr prefix_attr delimiter names em' n) \<and>
    to_plain ext (ComplexType am' tag' v' oc' em' None) include_attr prefix_attr delimiter transposed = Inr r"
    and child: "map_of em' n = Some (ComplexType am tag v oc em (Some lg))"
  from a have 1: "tag' \<noteq> CT_EMPTY" and 2: "tag' \<noteq> CT_SIMPLE" and 3: "element_ids oc' = Inr names"
    and 4: "n \<in> set names" and 5: "n \<notin> set (sibling_attr_keys include_attr prefix_attr delimiter names em' n)"
    and 6: "any_to_plain ext include_attr prefix_attr delimiter transposed (ComplexType am' tag' v' oc' em' None) = Inr r"
    unfolding to_plain_def by blast+
  have "\<exists>d p. r = PlainDict d \<and>
      any_to_plain ext include_attr prefix_attr delimiter transposed (ComplexType am tag v oc em (Some lg)) = Inr p \<and>
      map_of d n = Some p"
    using 1 2 3 4 child 5 6 by (rule any_to_plain_child)
  then show "\<exists>frame d. logdata_dict ext lg True = Inr frame \<and> r = PlainDict d \<and>
            map_of d n = Some (plain_of_frame frame)"
    by (auto split: sum.splits)
next
  assume a: "tag' \<noteq> CT_EMPTY \<and> tag' \<noteq> CT_SIMPLE \<and> element_ids oc' = Inr names \<and> n \<in> set names \<and>
    n \<notin> set (sibling_attr_keys include_attr prefix_attr delimiter names em' n) \<and>
    to_plain ext (ComplexType am' tag' v' oc' em' None) include_attr prefix_attr delimiter transposed = Inr r"
    and b: "map_of em' n = Some (PluralBinding items) \<and> map as_obj_log items = map Some lgs"
  from b have child: "map_of em' n = Some (PluralBinding items)" and logs: "map as_obj_log items = map Some lgs"
    by simp_all
  from a have 1: "tag' \<noteq> CT_EMPTY" and 2: "tag' \<noteq> CT_SIMPLE" and 3: "element_ids oc' = Inr names"
    and 4: "n \<in> set names" and 5: "n \<notin> set (sibling_attr_keys include_attr prefix_attr delimiter names em' n)"
    and 6: "any_to_plain ext include_attr prefix_attr delimiter transposed (ComplexType am' tag' v' oc' em' None) = Inr r"
    unfolding to_plain_def by blast+
  have "\<exists>d p. r = PlainDict d \<and>
      any_to_plain ext include_attr prefix_attr delimiter transposed (PluralBinding items) = Inr p \<and>
      map_of d n = Some p"
    using 1 2 3 4 child 5 6 by (rule any_to_plain_child)
  then obtain d p where r: "r = PlainDict d" and d: "map_of d n = Some p"
    and p: "any_to_plain ext include_attr prefix_attr delimiter transposed (PluralBinding items) = Inr p"
    by blast
  from p obtain frames where f: "map_exn (\<lambda>lg. logdata_dict ext lg True) lgs = Inr frames"
    and p_eq: "p = (if transposed then transposed_frames frames else PlainList (map plain_of_frame frames))"
    unfolding any_to_plain_logs[OF logs] by (auto split: sum.splits)
  with r d show "\<exists>frames d. map_exn (\<lambda>lg. logdata_dict ext lg True) lgs = Inr frames \<and> r = PlainDict d \<and>
            map_of d n =
              Some (if transposed then transposed_frames frames else PlainList (map plain_of_frame frames))"
    by blast
qed

theorem to_plain_log_witness:
  "to_plain sample_ext
     (PluralBinding [example_log_node ''L1'' (example_log [''100.0,50.2'', ''100.1,'']),
                     example_log_node ''L2'' (example_log_named ''ROP'' [''100.0,''])])
     True ''@'' ''.'' True =
   Inr (PlainDict
         [(''DEPT'', PlainList [PlainList [Leaf (PyFloat 100), Leaf (PyFloat (1001 / 10))], PlainList [Leaf (PyFloat 100)]]),
          (''GR'', PlainList [PlainList [Leaf (PyFloat (251 / 5)), Leaf PyNone], Leaf PyNone]),
          (''ROP'', PlainList [Leaf PyNone, PlainList [Leaf PyNone]])]) \<and>
   to_plain sample_ext example_logs True ''@'' ''.'' True =
   Inr (PlainDict
         [(''@version'', Leaf (PyStr ''1.4.1.1'')),
          (''log'', PlainDict
             [(''DEPT'', PlainList [PlainList [Leaf (PyFloat 100), Leaf (PyFloat (1001 / 10))], PlainList [Leaf (PyFloat 100)]]),
              (''GR'', PlainList [PlainList [Leaf (PyFloat (251 / 5)), Leaf PyNone], Leaf PyNone]),
              (''ROP'', PlainList [Leaf PyNone, PlainList [Leaf PyNone]])])]) \<and>
   map_of [(''@version'', Leaf (PyStr ''1.4.1.1'')),
          (''log'', PlainDict
             [(''DEPT'', PlainList [PlainList [Leaf (PyFloat 100), Leaf (PyFloat (1001 / 10))], PlainList [Leaf (PyFloat 100)]]),
              (''GR'', PlainList [PlainList [Leaf (PyFloat (251 / 5)), Leaf PyNone], Leaf PyNone]),
              (''ROP'', PlainList [Leaf PyNone, PlainList [Leaf PyNone]])])] ''log'' =
   Some (transposed_frames
          [[(''DEPT'', [PyFloat 100, PyFloat (1001 / 10)]), (''GR'', [PyFloat (251 / 5), PyNone])],
           [(''DEPT'', [PyFloat 100]), (''ROP'', [PyNone])]])"
proof -
  let ?items = "[example_log_node ''L1'' (example_log [''100.0,50.2'', ''100.1,'']),
                 example_log_node ''L2'' (example_log_named ''ROP'' [''100.0,''])]"
  let ?lgs = "[example_log [''100.0,50.2'', ''100.1,''], example_log_named ''ROP'' [''100.0,'']]"
  let ?frames = "[[(''DEPT'', [PyFloat 100, PyFloat (1001 / 10)]), (''GR'', [PyFloat (251 / 5), PyNone])],
                  [(''DEPT'', [PyFloat 100]), (''ROP'', [PyNone])]]"
  let ?t = "PlainDict
             [(''DEPT'', PlainList [PlainList [Leaf (PyFloat 100), Leaf (PyFloat (1001 / 10))], PlainList [Leaf (PyFloat 100)]]),
              (''GR'', PlainList [PlainList [Leaf (PyFloat (251 / 5)), Leaf PyNone], Leaf PyNone]),
              (''ROP'', PlainList [Leaf PyNone, PlainList [Leaf PyNone]])]"
  let ?d = "[(''@version'', Leaf (PyStr ''1.4.1.1'')), (''log'', ?t)]"
  let ?oc = "[ElementContent (Some ''log''), ElementContent (Some ''log'')]"
  let ?em = "[(''log'', PluralBinding ?items)]"
  let ?v = "Inl (BindingError ''NotSimpleContentError'') :: exn + pyval"
  have logs: "map as_obj_log ?items = map Some ?lgs" by (simp add: example_log_node_def)
  have frames: "map_exn (\<lambda>lg. logdata_dict sample_ext lg True) ?lgs = Inr ?frames"
    by (simp add: example_log_decoded example_log_named_decoded)
  have tf: "transposed_frames ?frames = ?t" by (simp add: transposed_frames_def)
  note inst = to_plain_log[where ext = sample_ext and items = ?items and lgs = ?lgs and include_attr = True
      and prefix_attr = "''@''" and delimiter = "''.''" and transposed = True and tag' = CT_ELEMENT_ONLY
      and oc' = ?oc and names = "[''log'', ''log'']" and n = "''log''" and em' = ?em
      and am' = "[(''version'', PyStr ''1.4.1.1'')]" and v' = ?v and r = "PlainDict ?d"]
  have 1: "to_plain sample_ext (PluralBinding ?items) True ''@'' ''.'' True = Inr ?t"
    using inst[THEN conjunct2, THEN conjunct1, rule_format, OF logs] unfolding frames by (simp add: tf)
  have 2: "to_plain sample_ext (ComplexType [(''version'', PyStr ''1.4.1.1'')] CT_ELEMENT_ONLY ?v ?oc ?em None)
      True ''@'' ''.'' True = Inr (PlainDict ?d)"
    using 1 by (simp add: to_plain_def fromkeys_def child_entries_def split: sum.splits)
  have h: "CT_ELEMENT_ONLY \<noteq> CT_EMPTY \<and> CT_ELEMENT_ONLY \<noteq> CT_SIMPLE \<and> element_ids ?oc = Inr [''log'', ''log''] \<and>
      ''log'' \<in> set [''log'', ''log''] \<and>
      ''log'' \<notin> set (sibling_attr_keys True ''@'' ''.'' [''log'', ''log''] ?em ''log'') \<and>
      to_plain sample_ext (ComplexType [(''version'', PyStr ''1.4.1.1'')] CT_ELEMENT_ONLY ?v ?oc ?em None)
        True ''@'' ''.'' True = Inr (PlainDict ?d)"
    using 2 by (simp add: sibling_attr_keys_def)
  have k: "map_of ?em ''log'' = Some (PluralBinding ?items) \<and> map as_obj_log ?items = map Some ?lgs"
    using logs by simp
  from inst[THEN conjunct2, THEN conjunct2, rule_format, OF h, THEN conjunct2, rule_format, OF k]
  obtain fs d where "map_exn (\<lambda>lg. logdata_dict sample_ext lg True) ?lgs = Inr fs" and "PlainDict ?d = PlainDict d"
    and "map_of d ''log'' = Some (if True then transposed_frames fs else PlainList (map plain_of_frame fs))"
    by blast
  then have 3: "map_of ?d ''log'' = Some (transposed_frames ?frames)" using frames by simp
  from 1 2 3 show ?thesis by (simp add: example_logs_def)
qed

end
